theory Spec2Isabelle
  imports Main "HOL-Library.Char_ord" "HOL-Library.List_Lexorder" "HOL-Library.Multiset"
begin

section \<open>Data model (src/types/protocol.ts, src/types/model.ts)\<close>

text \<open>
  \<^verbatim>\<open>vscode.Range\<close>: a start and an end position, each a line and a character.
\<close>

record Range =
  start_line :: nat
  start_character :: nat
  end_line :: nat
  end_character :: nat

text \<open>
  \<^verbatim>\<open>TypeHierarchyItem\<close> of protocol.ts. \<^verbatim>\<open>kind\<close> is a \<^verbatim>\<open>vscode.SymbolKind\<close>, a numeric
  enum, kept as its number; \<^verbatim>\<open>uri\<close> is a \<^verbatim>\<open>DocumentUri\<close>, a string. The opaque
  \<^verbatim>\<open>data?: unknown\<close> field is never read by model.ts and is left out.
\<close>

record TypeHierarchyItem =
  name :: string
  kind :: nat
  tags :: "nat list option"
  detail :: "string option"
  uri :: string
  range' :: Range
  selectionRange :: Range

definition SymbolKind_Class :: nat where
  "SymbolKind_Class = 4"

definition SymbolKind_Interface :: nat where
  "SymbolKind_Interface = 10"

datatype TypeHierarchyView = Supertype | Subtype | Class

text \<open>
  \<^verbatim>\<open>class TypeItem\<close>. Nodes are objects compared by identity
  (\<^verbatim>\<open>roots.includes(item)\<close>, \<^verbatim>\<open>array.indexOf(item)\<close>), so a node is an address into
  the arena \<open>heap\<close> of the state below and the fields that refer to nodes hold
  addresses. \<open>None\<close> is JavaScript's \<^verbatim>\<open>undefined\<close>. The \<^verbatim>\<open>model\<close> back-reference
  is the one state that holds the arena.
\<close>

type_synonym ref = nat

record TypeItem =
  item :: TypeHierarchyItem
  children :: "ref list option"
  parent :: "ref option"
  expand :: "bool option"

text \<open>\<^verbatim>\<open>new TypeItem(model, item, parent)\<close>: only \<^verbatim>\<open>parent\<close> is assigned.\<close>

definition new_TypeItem :: "TypeHierarchyItem \<Rightarrow> ref option \<Rightarrow> TypeItem" where
  "new_TypeItem it p = \<lparr>item = it, children = None, parent = p, expand = None\<rparr>"

text \<open>
  The hierarchy-query service behind \<^verbatim>\<open>vscode.commands.executeCommand\<close>. An awaited
  command either rejects (the \<^verbatim>\<open>await\<close> throws), resolves to \<^verbatim>\<open>undefined\<close>, or
  resolves to an array of items. The service is a parameter of the model: a function of
  the queries issued so far, the command and the item asked about.
\<close>

datatype command = Supertypes | Subtypes

datatype reply = Rejected | Absent | Items "TypeHierarchyItem list"

type_synonym fetch_log = "(command \<times> TypeHierarchyItem) list"

type_synonym service = "fetch_log \<Rightarrow> command \<Rightarrow> TypeHierarchyItem \<Rightarrow> reply"

datatype error = QueryRejected

text \<open>
  What \<^verbatim>\<open>_onDidChange.fire\<close> is given: the listener of the adapter tests
  \<^verbatim>\<open>e instanceof TypeItem\<close>, so a payload is the model or a node.
\<close>

datatype payload = PModel | PNode ref

text \<open>
  The state of one \<^verbatim>\<open>TypesModel\<close> with its \<^verbatim>\<open>TypeItemDataProvider\<close>:
  \<^item> \<open>view\<close>, \<open>roots\<close>: the fields of the model;
  \<^item> \<open>heap\<close>: the arena of all \<^verbatim>\<open>TypeItem\<close> objects created so far; a new object gets
    the address \<open>length heap\<close>;
  \<^item> \<open>changes\<close>: the payloads fired on the model's \<^verbatim>\<open>_onDidChange\<close>, oldest first;
  \<^item> \<open>emitted\<close>: the payloads fired on the adapter's \<^verbatim>\<open>_emitter\<close>
    (\<^verbatim>\<open>TypeItem | undefined\<close>), oldest first;
  \<^item> \<open>fetches\<close>: the \<^verbatim>\<open>executeCommand\<close> calls issued, oldest first;
  \<^item> \<open>prefetch\<close>: the adapter's configuration flag.
\<close>

record state =
  view :: TypeHierarchyView
  roots :: "ref list"
  heap :: "TypeItem list"
  changes :: "payload list"
  emitted :: "ref option list"
  fetches :: fetch_log
  prefetch :: bool

definition set_node :: "state \<Rightarrow> ref \<Rightarrow> TypeItem \<Rightarrow> state" where
  "set_node st a n = st\<lparr>heap := (heap st)[a := n]\<rparr>"

definition node :: "state \<Rightarrow> ref \<Rightarrow> TypeItem" where
  "node st a = heap st ! a"

text \<open>
  \<^verbatim>\<open>new TypesModel(view, items)\<close> followed by \<^verbatim>\<open>new TypeItemDataProvider(model)\<close>, as
  \<^verbatim>\<open>TypesTreeInput.resolve\<close> does: one root per item, in the order given, each with
  \<^verbatim>\<open>parent = undefined\<close>.
\<close>

definition TypesModel :: "TypeHierarchyView \<Rightarrow> bool \<Rightarrow> TypeHierarchyItem list \<Rightarrow> state" where
  "TypesModel v pf its =
     \<lparr>view = v, roots = [0..<length its],
      heap = map (\<lambda>it. new_TypeItem it None) its,
      changes = [], emitted = [], fetches = [], prefetch = pf\<rparr>"

section \<open>JavaScript array primitives\<close>

text \<open>\<^verbatim>\<open>array.indexOf(x)\<close>: the first index holding \<open>x\<close>, or \<open>-1\<close>.\<close>

fun indexOf :: "'a list \<Rightarrow> 'a \<Rightarrow> int" where
  "indexOf [] x = -1"
| "indexOf (y # ys) x =
     (if y = x then 0 else (let r = indexOf ys x in if r < 0 then -1 else r + 1))"

text \<open>\<^verbatim>\<open>array[i]\<close>: \<^verbatim>\<open>undefined\<close> when \<open>i\<close> is not an index of the array.\<close>

definition js_index :: "'a list \<Rightarrow> int \<Rightarrow> 'a option" where
  "js_index xs i = (if 0 \<le> i \<and> i < int (length xs) then Some (xs ! nat i) else None)"

text \<open>
  Modelled from the spec: \<^verbatim>\<open>tail\<close> and \<^verbatim>\<open>del\<close> are imported from \<^verbatim>\<open>../utils\<close>, which is
  not among the sources. The spec has \<^verbatim>\<open>previous\<close> move to the last child, and
  \<^verbatim>\<open>remove\<close> delete the node from its sibling array in place: \<open>tail\<close> is the last
  element (\<^verbatim>\<open>undefined\<close> for an empty array) and \<open>del\<close> removes the first occurrence,
  leaving an array that does not hold the element as it is.
\<close>

definition tail :: "'a list \<Rightarrow> 'a option" where
  "tail xs = js_index xs (int (length xs) - 1)"

definition del :: "'a list \<Rightarrow> 'a \<Rightarrow> 'a list" where
  "del xs x = remove1 x xs"

section \<open>Navigation (TypesModel.next, previous, \_move)\<close>

text \<open>
  \<^verbatim>\<open>isInRoot ? this.roots : item.parent?.children\<close>, shared by \<^verbatim>\<open>_move\<close> and
  \<^verbatim>\<open>remove\<close>.
\<close>

definition siblings_of :: "state \<Rightarrow> ref \<Rightarrow> ref list option" where
  "siblings_of st a =
     (if a \<in> set (roots st) then Some (roots st)
      else (case parent (node st a) of
              None \<Rightarrow> None
            | Some p \<Rightarrow> children (node st p)))"

text \<open>
  \<^verbatim>\<open>_move(item, fwd)\<close>. \<^verbatim>\<open>item.children?.length\<close> and \<^verbatim>\<open>array?.length\<close> are truthy for
  a defined, non-empty array. The index expression is the source's
  \<^verbatim>\<open>idx + delta + array.length % array.length\<close>, where \<^verbatim>\<open>%\<close> binds tighter than \<^verbatim>\<open>+\<close>.
  The result is \<open>None\<close> where the source returns \<^verbatim>\<open>undefined\<close>.
\<close>

definition move :: "state \<Rightarrow> ref \<Rightarrow> bool \<Rightarrow> ref option" where
  "move st a fwd =
     (case children (node st a) of
        Some (c # cs) \<Rightarrow> (if fwd then js_index (c # cs) 0 else tail (c # cs))
      | _ \<Rightarrow>
        (case siblings_of st a of
           Some (x # xs) \<Rightarrow>
             (let array = x # xs;
                  idx = indexOf array a;
                  delta = (if fwd then 1 else -1)
              in js_index array
                   (idx + delta + (int (length array) mod int (length array))))
         | _ \<Rightarrow> None))"

text \<open>\<^verbatim>\<open>this._move(from, true) ?? from\<close> and \<^verbatim>\<open>this._move(from, false) ?? from\<close>.\<close>

definition "next" :: "state \<Rightarrow> ref \<Rightarrow> ref" where
  "next st from = (case move st from True of Some n \<Rightarrow> n | None \<Rightarrow> from)"

definition previous :: "state \<Rightarrow> ref \<Rightarrow> ref" where
  "previous st from = (case move st from False of Some n \<Rightarrow> n | None \<Rightarrow> from)"

section \<open>Child resolution (TypesModel.\_resolveTypes, getTypeChildren)\<close>

text \<open>
  \<^verbatim>\<open>kind.toString()\<close>: the decimal digits of the enum's number.
\<close>

fun toString :: "nat \<Rightarrow> string" where
  "toString n =
     (if n < 10 then [char_of (48 + n)]
      else toString (n div 10) @ [char_of (48 + n mod 10)])"

text \<open>
  \<^verbatim>\<open>String.prototype.localeCompare\<close> depends on the host's collation, so it is a
  parameter \<open>lc\<close> of the model: negative, zero or positive.
\<close>

type_synonym collation = "string \<Rightarrow> string \<Rightarrow> int"

text \<open>The comparator handed to \<^verbatim>\<open>types.sort\<close>.\<close>

definition compareTypes :: "collation \<Rightarrow> TypeHierarchyItem \<Rightarrow> TypeHierarchyItem \<Rightarrow> int" where
  "compareTypes lc a b =
     (if toString (kind a) = toString (kind b) then lc (name a) (name b)
      else lc (toString (kind b)) (toString (kind a)))"

text \<open>
  \<^verbatim>\<open>Array.prototype.sort(comparefn)\<close>. ECMAScript requires the sort to be stable and,
  for a consistent comparator, to return the elements in an order where no element is
  greater than a later one; the stable insertion below computes that order. An element
  is placed before the first element that is not smaller than it, and later elements
  of the input are inserted first, so equal elements keep their input order.
\<close>

fun insort_by :: "('a \<Rightarrow> 'a \<Rightarrow> int) \<Rightarrow> 'a \<Rightarrow> 'a list \<Rightarrow> 'a list" where
  "insort_by c x [] = [x]"
| "insort_by c x (y # ys) = (if c x y \<le> 0 then x # y # ys else y # insort_by c x ys)"

definition js_sort :: "('a \<Rightarrow> 'a \<Rightarrow> int) \<Rightarrow> 'a list \<Rightarrow> 'a list" where
  "js_sort c xs = foldr (insort_by c) xs []"

text \<open>
  \<^verbatim>\<open>types.sort((a, b) => ...)\<close> of \<^verbatim>\<open>_resolveTypes\<close>.
\<close>

definition sort_types :: "collation \<Rightarrow> TypeHierarchyItem list \<Rightarrow> TypeHierarchyItem list" where
  "sort_types lc ts = js_sort (compareTypes lc) ts"

text \<open>
  \<^verbatim>\<open>executeCommand\<close>: the call is logged and answered by the service.
\<close>

definition executeCommand :: "service \<Rightarrow> state \<Rightarrow> command \<Rightarrow> TypeHierarchyItem \<Rightarrow> reply \<times> state" where
  "executeCommand q st c it = (q (fetches st) c it, st\<lparr>fetches := fetches st @ [(c, it)]\<rparr>)"

text \<open>
  \<^verbatim>\<open>_resolveTypes(type)\<close>. A rejected command makes the \<^verbatim>\<open>await\<close> throw: there is no
  \<^verbatim>\<open>try\<close> in the source, so the rejection is the result. \<^verbatim>\<open>types.map(item => new
  TypeItem(this, item, type))\<close> allocates the new nodes in order at the end of the
  arena.
\<close>

definition resolveTypes :: "collation \<Rightarrow> service \<Rightarrow> state \<Rightarrow> ref \<Rightarrow> (error + ref list) \<times> state" where
  "resolveTypes lc q st type =
     (let c = (if view st = Supertype then Supertypes else Subtypes);
          (types, st1) = executeCommand q st c (item (node st type))
      in case types of
           Rejected \<Rightarrow> (Inl QueryRejected, st1)
         | Absent \<Rightarrow> (Inr [], st1)
         | Items ts \<Rightarrow>
             (let sorted = sort_types lc ts;
                  base = length (heap st1)
              in (Inr [base..<base + length sorted],
                  st1\<lparr>heap := heap st1 @ map (\<lambda>it. new_TypeItem it (Some type)) sorted\<rparr>)))"

text \<open>\<^verbatim>\<open>getTypeChildren(type)\<close>: an array, also an empty one, is truthy.\<close>

definition getTypeChildren :: "collation \<Rightarrow> service \<Rightarrow> state \<Rightarrow> ref \<Rightarrow> (error + ref list) \<times> state" where
  "getTypeChildren lc q st type =
     (case children (node st type) of
        Some cs \<Rightarrow> (Inr cs, st)
      | None \<Rightarrow>
          (case resolveTypes lc q st type of
             (Inl e, st1) \<Rightarrow> (Inl e, st1)
           | (Inr cs, st1) \<Rightarrow>
               (Inr cs, set_node st1 type ((node st1 type)\<lparr>children := Some cs\<rparr>))))"

section \<open>Highlights and nearest root (TypesModel.getEditorHighlights, nearest)\<close>

text \<open>
  \<^verbatim>\<open>vscode.Uri\<close> values are objects. \<^verbatim>\<open>vscode.Uri.parse\<close> builds a new object at every
  call, and \<^verbatim>\<open>===\<close> between two objects compares their identity, not their text. The
  \<^verbatim>\<open>Uri\<close> objects made so far are a list, an object is its index, and parsing appends.
  Of an object the list keeps its string form, which is what \<^verbatim>\<open>toString()\<close> returns.
  The string form of a parsed text is the host's: \<^verbatim>\<open>vscode.Uri\<close> normalises and
  percent-encodes (\<^verbatim>\<open>file:///C:/x\<close> becomes \<^verbatim>\<open>file:///c%3A/x\<close>), so it is a parameter
  \<open>fmt\<close> of parsing.
\<close>

type_synonym uri_ref = nat

type_synonym uri_heap = "string list"

type_synonym uri_format = "string \<Rightarrow> string"

definition Uri_parse :: "uri_format \<Rightarrow> uri_heap \<Rightarrow> string \<Rightarrow> uri_ref \<times> uri_heap" where
  "Uri_parse fmt us s = (length us, us @ [fmt s])"

definition Uri_toString :: "uri_heap \<Rightarrow> uri_ref \<Rightarrow> string" where
  "Uri_toString us u = us ! u"

text \<open>
  \<^verbatim>\<open>getEditorHighlights(item, uri)\<close>:
  \<^verbatim>\<open>vscode.Uri.parse(item.item.uri) === uri ? [item.item.selectionRange] : []\<close>.
\<close>

definition getEditorHighlights ::
  "uri_format \<Rightarrow> uri_heap \<Rightarrow> state \<Rightarrow> ref \<Rightarrow> uri_ref \<Rightarrow> Range list \<times> uri_heap" where
  "getEditorHighlights fmt us st a u =
     (let (parsed, us1) = Uri_parse fmt us (uri (item (node st a)))
      in (if parsed = u then [selectionRange (item (node st a))] else [], us1))"

text \<open>
  \<^verbatim>\<open>nearest(uri, _position)\<close>, the sibling that compares the strings:
  \<^verbatim>\<open>roots.find(item => item.item.uri.toString() === uri.toString()) ?? roots[0]\<close>.
  \<^verbatim>\<open>item.item.uri\<close> is a string, its own string form.
\<close>

definition nearest :: "uri_heap \<Rightarrow> state \<Rightarrow> uri_ref \<Rightarrow> ref option" where
  "nearest us st u =
     (case find (\<lambda>r. uri (item (node st r)) = Uri_toString us u) (roots st) of
        Some r \<Rightarrow> Some r
      | None \<Rightarrow> js_index (roots st) 0)"

section \<open>Removal and the change event (TypesModel.remove)\<close>

text \<open>
  The listener the adapter's constructor subscribes to the model:
  \<^verbatim>\<open>e => this._emitter.fire(e instanceof TypeItem ? e : undefined)\<close>.
\<close>

definition modelListener :: "payload \<Rightarrow> ref option" where
  "modelListener e = (case e of PNode n \<Rightarrow> Some n | PModel \<Rightarrow> None)"

text \<open>\<^verbatim>\<open>this._onDidChange.fire(e)\<close>: the event is recorded and the listener runs.\<close>

definition fire_change :: "state \<Rightarrow> payload \<Rightarrow> state" where
  "fire_change st e =
     st\<lparr>changes := changes st @ [e], emitted := emitted st @ [modelListener e]\<rparr>"

text \<open>
  \<^verbatim>\<open>remove(item)\<close>. The sibling array is changed in place: it is either the root
  array of the model or the \<^verbatim>\<open>children\<close> array of the parent. The guard
  \<^verbatim>\<open>if (siblings)\<close> asks only whether an array was found.
\<close>

definition remove :: "state \<Rightarrow> ref \<Rightarrow> state" where
  "remove st a =
     (if a \<in> set (roots st) then fire_change (st\<lparr>roots := del (roots st) a\<rparr>) PModel
      else (case parent (node st a) of
              None \<Rightarrow> st
            | Some p \<Rightarrow>
                (case children (node st p) of
                   None \<Rightarrow> st
                 | Some cs \<Rightarrow>
                     fire_change
                       (set_node st p ((node st p)\<lparr>children := Some (del cs a)\<rparr>)) PModel)))"

section \<open>The tree adapter (TypeItemDataProvider)\<close>

datatype TreeItemCollapsibleState = NoneState | Collapsed | Expanded

text \<open>
  \<^verbatim>\<open>getClassViewRoot(rootClass)\<close>. The loop over \<^verbatim>\<open>supertypes\<close> returns at the first
  class-kind item, which is \<open>find\<close>. The recursion need not end (the service may
  name supertypes for ever), so the function is partial: \<open>None\<close> is a call that does
  not return.
\<close>

definition link_parent :: "state \<Rightarrow> ref \<Rightarrow> TypeHierarchyItem \<Rightarrow> state" where
  "link_parent st rootClass supertype =
     (let parentItem = length (heap st);
          st1 = st\<lparr>heap := heap st @ [new_TypeItem supertype None]\<rparr>;
          st2 = set_node st1 rootClass ((node st1 rootClass)\<lparr>parent := Some parentItem\<rparr>)
      in set_node st2 parentItem ((node st2 parentItem)\<lparr>children := Some [rootClass]\<rparr>))"

partial_function (option) getClassViewRoot ::
  "service \<Rightarrow> state \<Rightarrow> ref \<Rightarrow> ((error + ref) \<times> state) option" where
  "getClassViewRoot q st rootClass =
     (case executeCommand q
             (set_node st rootClass ((node st rootClass)\<lparr>expand := Some True\<rparr>))
             Supertypes (item (node st rootClass)) of
        (Rejected, st1) \<Rightarrow> Some (Inl QueryRejected, st1)
      | (Absent, st1) \<Rightarrow> Some (Inr rootClass, st1)
      | (Items supertypes, st1) \<Rightarrow>
          (if length supertypes = 0 then Some (Inr rootClass, st1)
           else (case find (\<lambda>supertype. kind supertype = SymbolKind_Class) supertypes of
                   Some supertype \<Rightarrow>
                     getClassViewRoot q (link_parent st1 rootClass supertype)
                       (length (heap st1))
                 | None \<Rightarrow> Some (Inr rootClass, st1))))"

text \<open>
  \<^verbatim>\<open>getChildren(element)\<close> for a defined \<^verbatim>\<open>element\<close>: the children of the model, and
  \<^verbatim>\<open>this._emitter.fire(element)\<close> when there are none.
\<close>

definition getChildrenOf :: "collation \<Rightarrow> service \<Rightarrow> state \<Rightarrow> ref \<Rightarrow> (error + ref list) \<times> state" where
  "getChildrenOf lc q st element =
     (case getTypeChildren lc q st element of
        (Inl e, st1) \<Rightarrow> (Inl e, st1)
      | (Inr cs, st1) \<Rightarrow>
          (Inr cs, if length cs = 0 then st1\<lparr>emitted := emitted st1 @ [Some element]\<rparr> else st1))"

text \<open>
  \<^verbatim>\<open>getChildren(element?)\<close>. At the top level of the Class view it climbs from the
  first class-kind root; the result is \<open>None\<close> when that climb does not return.
\<close>

definition getChildren ::
  "collation \<Rightarrow> service \<Rightarrow> state \<Rightarrow> ref option \<Rightarrow> ((error + ref list) \<times> state) option" where
  "getChildren lc q st element =
     (case element of
        None \<Rightarrow>
          (if view st = Class then
             (case find (\<lambda>root. kind (item (node st root)) = SymbolKind_Class) (roots st) of
                Some root \<Rightarrow>
                  (case getClassViewRoot q st root of
                     None \<Rightarrow> None
                   | Some (Inl e, st1) \<Rightarrow> Some (Inl e, st1)
                   | Some (Inr r, st1) \<Rightarrow> Some (Inr [r], st1))
              | None \<Rightarrow> Some (Inr [], st))
           else Some (Inr (roots st), st))
      | Some e \<Rightarrow> Some (getChildrenOf lc q st e))"

text \<open>
  \<^verbatim>\<open>getTreeItem(element)\<close>, of which the model keeps the \<^verbatim>\<open>collapsibleState\<close>; label,
  icon and command do not depend on the tree.
\<close>

definition getTreeItem ::
  "collation \<Rightarrow> service \<Rightarrow> state \<Rightarrow> ref \<Rightarrow> (error + TreeItemCollapsibleState) \<times> state" where
  "getTreeItem lc q st element =
     (if (view st = Class \<and> expand (node st element) = Some True)
         \<or> element \<in> set (roots st)
      then (Inr Expanded, st)
      else if (case children (node st element) of Some cs \<Rightarrow> length cs = 0 | None \<Rightarrow> False)
      then (Inr NoneState, st)
      else if \<not> prefetch st then (Inr Collapsed, st)
      else (case getChildrenOf lc q st element of
              (Inl e, st1) \<Rightarrow> (Inl e, st1)
            | (Inr cs, st1) \<Rightarrow>
                (Inr (if length cs \<noteq> 0 then Collapsed else NoneState),
                 set_node st1 element ((node st1 element)\<lparr>children := Some cs\<rparr>))))"

section \<open>Sequences of operations\<close>

text \<open>
  The calls that the display sink and the commands make on one model and its adapter.
  \<^verbatim>\<open>next\<close>, \<^verbatim>\<open>previous\<close>, \<^verbatim>\<open>nearest\<close>, \<^verbatim>\<open>getEditorHighlights\<close> and \<^verbatim>\<open>getParent\<close> only
  read the state. A rejected query leaves the state the call had reached.
\<close>

datatype operation =
  OpGetTypeChildren ref
| OpRemove ref
| OpGetTreeItem ref
| OpGetChildren "ref option"

fun exec :: "collation \<Rightarrow> service \<Rightarrow> state \<Rightarrow> operation \<Rightarrow> state option" where
  "exec lc q st (OpGetTypeChildren a) = Some (snd (getTypeChildren lc q st a))"
| "exec lc q st (OpRemove a) = Some (remove st a)"
| "exec lc q st (OpGetTreeItem a) = Some (snd (getTreeItem lc q st a))"
| "exec lc q st (OpGetChildren e) = map_option snd (getChildren lc q st e)"

fun run :: "collation \<Rightarrow> service \<Rightarrow> state \<Rightarrow> operation list \<Rightarrow> state option" where
  "run lc q st [] = Some st"
| "run lc q st (x # xs) =
     (case exec lc q st x of None \<Rightarrow> None | Some st1 \<Rightarrow> run lc q st1 xs)"

section \<open>Example data\<close>

definition r0 :: Range where
  "r0 = \<lparr>start_line = 0, start_character = 0, end_line = 0, end_character = 0\<rparr>"

definition mk_item :: "string \<Rightarrow> nat \<Rightarrow> TypeHierarchyItem" where
  "mk_item n k =
     \<lparr>name = n, kind = k, tags = None, detail = None, uri = ''file:///'' @ n,
      range' = r0, selectionRange = r0\<rparr>"

definition three_roots :: state where
  "three_roots =
     TypesModel Supertype False
       [mk_item ''R0'' SymbolKind_Class, mk_item ''R1'' SymbolKind_Class,
        mk_item ''R2'' SymbolKind_Class]"

text \<open>
  A collation for the examples: the comparison of the strings by their character codes.
\<close>

definition codeCompare :: collation where
  "codeCompare a b = (if a < b then -1 else if a = b then 0 else 1)"

text \<open>
  A service for the examples. The supertypes of \<open>X\<close> are the interface \<open>I\<close> and the
  class \<open>Y\<close>, in that order; its subtypes are the class \<open>B\<close>, the interface \<open>J\<close> and
  the class \<open>A\<close>; every other query has no result.
\<close>

definition example_service :: service where
  "example_service log c it =
     (if name it = ''X'' \<and> c = Supertypes then
        Items [mk_item ''I'' SymbolKind_Interface, mk_item ''Y'' SymbolKind_Class]
      else if name it = ''X'' \<and> c = Subtypes then
        Items [mk_item ''B'' SymbolKind_Class, mk_item ''J'' SymbolKind_Interface,
               mk_item ''A'' SymbolKind_Class]
      else Absent)"

text \<open>A service whose every command rejects.\<close>

definition failing_service :: service where
  "failing_service log c it = Rejected"

text \<open>One class-kind root \<open>X\<close>, in each view.\<close>

definition root_X :: "TypeHierarchyView \<Rightarrow> state" where
  "root_X v = TypesModel v False [mk_item ''X'' SymbolKind_Class]"

text \<open>The Subtype view of \<open>X\<close> after its children have been resolved.\<close>

definition family :: state where
  "family = snd (getTypeChildren codeCompare example_service (root_X Subtype) 0)"


section \<open>Invariants and states used in the results\<close>

text \<open>
  What the sort needs of the host's collation: it is a consistent comparator (the sign
  flips with the arguments, and ``not greater'' is transitive), as ECMAScript requires
  of \<^verbatim>\<open>localeCompare\<close>.
\<close>

definition consistent :: "collation \<Rightarrow> bool" where
  "consistent lc \<longleftrightarrow>
     (\<forall>a b. (lc a b < 0) = (0 < lc b a)) \<and>
     (\<forall>a b c. lc a b \<le> 0 \<and> lc b c \<le> 0 \<longrightarrow> lc a c \<le> 0)"

text \<open>
  On the decimal numerals, which are the string forms of the kinds, the collation
  compares character by character, as collations do for strings of ASCII digits when
  they are not asked for a numeric comparison. \<open><\<close> on strings is the lexicographic
  order by character code.
\<close>

definition digits_lexicographic :: "collation \<Rightarrow> bool" where
  "digits_lexicographic lc \<longleftrightarrow>
     (\<forall>m n. (lc (toString m) (toString n) < 0) = (toString m < toString n))"

text \<open>The subtypes of \<open>X\<close> as the example service returns them.\<close>

definition example_types :: "TypeHierarchyItem list" where
  "example_types =
     [mk_item ''B'' SymbolKind_Class, mk_item ''J'' SymbolKind_Interface,
      mk_item ''A'' SymbolKind_Class]"

text \<open>Every node of the root sequence is in the arena and has no parent.\<close>

definition roots_unparented :: "state \<Rightarrow> bool" where
  "roots_unparented st \<longleftrightarrow>
     (\<forall>r \<in> set (roots st). r < length (heap st) \<and> parent (node st r) = None)"

text \<open>
  From \<open>st\<close> to \<open>st1\<close> no node is lost and every node of \<open>st\<close> keeps its parent.
\<close>

definition parents_kept :: "state \<Rightarrow> state \<Rightarrow> bool" where
  "parents_kept st st1 \<longleftrightarrow>
     length (heap st) \<le> length (heap st1) \<and>
     (\<forall>b < length (heap st). parent (node st1 b) = parent (node st b))"

text \<open>Every node created between \<open>st\<close> and \<open>st1\<close> has the parent \<open>a\<close>.\<close>

definition built_under :: "state \<Rightarrow> state \<Rightarrow> ref \<Rightarrow> bool" where
  "built_under st st1 a \<longleftrightarrow>
     (\<forall>b. length (heap st) \<le> b \<and> b < length (heap st1) \<longrightarrow> parent (node st1 b) = Some a)"

text \<open>
  Every node created between \<open>st\<close> and \<open>st1\<close> has as parent the node that the
  operation \<open>x\<close> was called on.
\<close>

definition built_by :: "state \<Rightarrow> state \<Rightarrow> operation \<Rightarrow> bool" where
  "built_by st st1 x \<longleftrightarrow>
     (\<forall>b. length (heap st) \<le> b \<and> b < length (heap st1) \<longrightarrow>
        (\<exists>a. parent (node st1 b) = Some a \<and>
             x \<in> {OpGetTypeChildren a, OpGetTreeItem a, OpGetChildren (Some a)}))"

text \<open>
  The one call that runs the class-view root materialization: \<^verbatim>\<open>getChildren()\<close> at
  the top level of the Class view.
\<close>

definition materializes :: "state \<Rightarrow> operation \<Rightarrow> bool" where
  "materializes st x \<longleftrightarrow> x = OpGetChildren None \<and> view st = Class"

text \<open>
  The state in which \<^verbatim>\<open>getClassViewRoot\<close> reads the reply of the service:
  \<^verbatim>\<open>rootClass.expand = true\<close> is done and the query is logged.
\<close>

definition marked :: "state \<Rightarrow> ref \<Rightarrow> state" where
  "marked st a =
     (set_node st a ((node st a)\<lparr>expand := Some True\<rparr>))
       \<lparr>fetches := fetches st @ [(Supertypes, item (node st a))]\<rparr>"

text \<open>
  The Class view of \<open>X\<close> after the top-level \<^verbatim>\<open>getChildren()\<close>: the new node \<open>Y\<close>
  (node 1) above \<open>X\<close> (node 0).
\<close>

definition class_chain :: state where
  "class_chain =
     \<lparr>view = Class, roots = [0],
      heap = [(new_TypeItem (mk_item ''X'' 4) None)\<lparr>parent := Some 1, expand := Some True\<rparr>,
              (new_TypeItem (mk_item ''Y'' 4) None)\<lparr>children := Some [0], expand := Some True\<rparr>],
      changes = [], emitted = [],
      fetches = [(Supertypes, mk_item ''X'' 4), (Supertypes, mk_item ''Y'' 4)],
      prefetch = False\<rparr>"

text \<open>
  What a climb of \<^verbatim>\<open>getClassViewRoot\<close> from the node \<open>a\<close> does to the parent links
  between \<open>st\<close> and \<open>st1\<close>: no node is lost; every node of \<open>st\<close> other than \<open>a\<close>
  keeps its parent; \<open>a\<close> keeps its parent when no node was made and has the first new
  node as parent otherwise; every new node has the next new node as parent, and the
  last one has none.
\<close>

definition climb_links :: "state \<Rightarrow> state \<Rightarrow> ref \<Rightarrow> bool" where
  "climb_links st st1 a \<longleftrightarrow>
     length (heap st) \<le> length (heap st1) \<and>
     (\<forall>b < length (heap st). b \<noteq> a \<longrightarrow> parent (node st1 b) = parent (node st b)) \<and>
     parent (node st1 a) =
       (if length (heap st1) = length (heap st) then parent (node st a)
        else Some (length (heap st))) \<and>
     (\<forall>b. length (heap st) \<le> b \<and> b < length (heap st1) \<longrightarrow>
        parent (node st1 b) = (if Suc b < length (heap st1) then Some (Suc b) else None))"

text \<open>The Class view of \<open>X\<close> after the climb and after the children of \<open>X\<close> were resolved.\<close>

definition class_family :: state where
  "class_family = snd (getTypeChildren codeCompare example_service class_chain 0)"

text \<open>
  A session on the Subtype view of \<open>X\<close>: resolve its children, remove the child \<open>B\<close>,
  ask for the children of \<open>A\<close>, remove the root.
\<close>

definition session :: "operation list" where
  "session = [OpGetTypeChildren 0, OpRemove 2, OpGetChildren (Some 1), OpRemove 0]"

definition after_session :: state where
  "after_session =
     remove (snd (getChildrenOf codeCompare example_service (remove family 2) 1)) 0"

section \<open>Basic facts about the state\<close>

declare toString.simps [simp del]

lemma node_set_node:
  "node (set_node st a n) b = (if b = a \<and> a < length (heap st) then n else node st b)"
  by (cases "a < length (heap st)") (auto simp: node_def set_node_def list_update_beyond)

lemma set_node_fields [simp]:
  "roots (set_node st a n) = roots st"
  "view (set_node st a n) = view st"
  "changes (set_node st a n) = changes st"
  "emitted (set_node st a n) = emitted st"
  "fetches (set_node st a n) = fetches st"
  "prefetch (set_node st a n) = prefetch st"
  "length (heap (set_node st a n)) = length (heap st)"
  by (simp_all add: set_node_def)

lemma executeCommand_fields [simp]:
  "fst (executeCommand q st c it) = q (fetches st) c it"
  "roots (snd (executeCommand q st c it)) = roots st"
  "view (snd (executeCommand q st c it)) = view st"
  "heap (snd (executeCommand q st c it)) = heap st"
  "changes (snd (executeCommand q st c it)) = changes st"
  "emitted (snd (executeCommand q st c it)) = emitted st"
  "fetches (snd (executeCommand q st c it)) = fetches st @ [(c, it)]"
  "prefetch (snd (executeCommand q st c it)) = prefetch st"
  by (simp_all add: executeCommand_def)

section \<open>The example states, evaluated\<close>

lemma toString_4: "toString 4 = ''4''"
  by code_simp

lemma toString_10: "toString 10 = ''10''"
  by code_simp

lemmas model_defs =
  getTypeChildren_def resolveTypes_def executeCommand_def node_def set_node_def sort_types_def
  js_sort_def
  compareTypes_def codeCompare_def remove_def fire_change_def modelListener_def del_def
  siblings_of_def example_service_def failing_service_def SymbolKind_Class_def
  SymbolKind_Interface_def new_TypeItem_def mk_item_def TypesModel_def toString_4 toString_10

lemma three_roots_eq:
  "three_roots =
     \<lparr>view = Supertype, roots = [0, 1, 2],
      heap = [new_TypeItem (mk_item ''R0'' 4) None, new_TypeItem (mk_item ''R1'' 4) None,
              new_TypeItem (mk_item ''R2'' 4) None],
      changes = [], emitted = [], fetches = [], prefetch = False\<rparr>"
  by (simp add: three_roots_def TypesModel_def SymbolKind_Class_def upt_rec)

lemma three_roots_eval:
  "roots three_roots = [0, 1, 2]"
  "length (heap three_roots) = 3"
  "children (node three_roots 0) = None"
  "children (node three_roots 1) = None"
  "children (node three_roots 2) = None"
  by (simp_all add: three_roots_eq node_def new_TypeItem_def)

lemma root_X_eq:
  "root_X v =
     \<lparr>view = v, roots = [0], heap = [new_TypeItem (mk_item ''X'' 4) None],
      changes = [], emitted = [], fetches = [], prefetch = False\<rparr>"
  by (simp add: root_X_def TypesModel_def SymbolKind_Class_def)

lemma family_eq:
  "family =
     \<lparr>view = Subtype, roots = [0],
      heap = [(new_TypeItem (mk_item ''X'' 4) None)\<lparr>children := Some [1, 2, 3]\<rparr>,
              new_TypeItem (mk_item ''A'' 4) (Some 0),
              new_TypeItem (mk_item ''B'' 4) (Some 0),
              new_TypeItem (mk_item ''J'' 10) (Some 0)],
      changes = [], emitted = [],
      fetches = [(Subtypes, mk_item ''X'' 4)], prefetch = False\<rparr>"
  by (simp add: family_def root_X_eq model_defs upt_rec)


section \<open>Navigation\<close>

text \<open>
  C1 (navigation wraparound). The claim has \<open>next R2 = R0\<close> and \<open>previous R0 = R2\<close>
  for the root sequence \<open>[R0, R1, R2]\<close> with no children resolved. In the code the
  term \<^verbatim>\<open>array.length % array.length\<close> is \<open>0\<close>, so the index is \<open>idx + delta\<close> without
  any wrap: at the last root it is \<open>3\<close>, at the first root it is \<open>-1\<close>, the read is
  \<^verbatim>\<open>undefined\<close> and \<^verbatim>\<open>?? from\<close> returns the node itself. Inside the array the move
  is as claimed (\<open>next R0 = R1\<close>, \<open>previous R2 = R1\<close>).
\<close>

theorem C1_no_wraparound:
  "next three_roots 2 = 2 \<and> previous three_roots 0 = 0 \<and>
   next three_roots 0 = 1 \<and> previous three_roots 2 = 1"
  by (simp add: next_def previous_def move_def siblings_of_def js_index_def
      three_roots_eval)

section \<open>Editor highlights\<close>

lemma getEditorHighlights_empty:
  "u < length us \<Longrightarrow> fst (getEditorHighlights fmt us st a u) = []"
  by (simp add: getEditorHighlights_def Uri_parse_def)

text \<open>
  C4 (highlights). The claim has \<^verbatim>\<open>getEditorHighlights\<close> return the selection range
  when the queried URI matches the URI of the node. The code compares the object that
  \<^verbatim>\<open>Uri.parse\<close> has just made with the queried object by identity, which never holds
  (lemma \<open>getEditorHighlights_empty\<close>): for the root \<open>X\<close> and a queried \<^verbatim>\<open>Uri\<close>
  whose string form is the very URI of the node the result is empty, whatever the
  host's formatting, while \<^verbatim>\<open>nearest\<close>, which compares the strings, finds the root
  by its \<^verbatim>\<open>find\<close>.
\<close>

theorem C4_matching_uri_not_highlighted:
  "Uri_toString [''file:///X''] 0 = uri (item (node (root_X Supertype) 0)) \<and>
   fst (getEditorHighlights fmt [''file:///X''] (root_X Supertype) 0 0) = [] \<and>
   nearest [''file:///X''] (root_X Supertype) 0 = Some 0 \<and>
   find (\<lambda>r. uri (item (node (root_X Supertype) r)) = Uri_toString [''file:///X''] 0)
     (roots (root_X Supertype)) = Some 0"
  by (simp add: getEditorHighlights_def Uri_parse_def Uri_toString_def root_X_def
      TypesModel_def node_def new_TypeItem_def mk_item_def nearest_def)

section \<open>Removal\<close>

lemma del_absent: "x \<notin> set xs \<Longrightarrow> del xs x = xs"
  by (simp add: del_def remove1_idem)

lemma del_present:
  "x \<in> set xs \<Longrightarrow> \<exists>pre post. xs = pre @ x # post \<and> x \<notin> set pre \<and> del xs x = pre @ post"
  unfolding del_def
  by (metis remove1_split split_list_first)

lemma remove_unresolved: "siblings_of st a = None \<Longrightarrow> remove st a = st"
  by (auto simp: siblings_of_def remove_def split: if_splits option.splits)

lemma remove_root:
  assumes "a \<in> set (roots st)"
  shows "roots (remove st a) = del (roots st) a" "heap (remove st a) = heap st"
    "changes (remove st a) = changes st @ [PModel]"
    "emitted (remove st a) = emitted st @ [None]"
  using assms by (simp_all add: remove_def fire_change_def modelListener_def)

lemma remove_child:
  assumes "a \<notin> set (roots st)" "parent (node st a) = Some p" "children (node st p) = Some cs"
    "p < length (heap st)"
  shows "roots (remove st a) = roots st"
    "children (node (remove st a) p) = Some (del cs a)"
    "b \<noteq> p \<Longrightarrow> node (remove st a) b = node st b"
    "changes (remove st a) = changes st @ [PModel]"
    "emitted (remove st a) = emitted st @ [None]"
  using assms
  by (simp_all add: remove_def fire_change_def modelListener_def node_def set_node_def)

text \<open>
  C5 (removal), as amended. \<^verbatim>\<open>remove\<close> is a silent no-op exactly when no sibling
  array is found: the node is not in the root sequence and it has no parent or its
  parent's children are unresolved. When the array is found, the node is deleted from
  it in place (the node's first occurrence; an array that does not hold the node is left
  as it is) and one change event is fired whose payload is the model, to which the
  adapter's listener answers with a refresh of the whole tree.
\<close>

theorem C5_remove_guarded_by_array:
  "(siblings_of st a = None \<longrightarrow> remove st a = st) \<and>
   (a \<in> set (roots st) \<longrightarrow>
      roots (remove st a) = del (roots st) a \<and> heap (remove st a) = heap st \<and>
      changes (remove st a) = changes st @ [PModel] \<and>
      emitted (remove st a) = emitted st @ [None]) \<and>
   (a \<notin> set (roots st) \<and> parent (node st a) = Some p \<and> children (node st p) = Some cs \<and>
    p < length (heap st) \<longrightarrow>
      roots (remove st a) = roots st \<and>
      children (node (remove st a) p) = Some (del cs a) \<and>
      (\<forall>b. b \<noteq> p \<longrightarrow> node (remove st a) b = node st b) \<and>
      changes (remove st a) = changes st @ [PModel] \<and>
      emitted (remove st a) = emitted st @ [None]) \<and>
   (a \<notin> set xs \<longrightarrow> del xs a = xs) \<and>
   (a \<in> set xs \<longrightarrow> (\<exists>pre post. xs = pre @ a # post \<and> a \<notin> set pre \<and> del xs a = pre @ post))"
proof (intro conjI impI allI)
  assume "siblings_of st a = None"
  then show "remove st a = st" by (rule remove_unresolved)
next
  assume r: "a \<in> set (roots st)"
  then show "roots (remove st a) = del (roots st) a" by (rule remove_root)
  from r show "heap (remove st a) = heap st" by (rule remove_root)
  from r show "changes (remove st a) = changes st @ [PModel]" by (rule remove_root)
  from r show "emitted (remove st a) = emitted st @ [None]" by (rule remove_root)
next
  assume c: "a \<notin> set (roots st) \<and> parent (node st a) = Some p \<and>
    children (node st p) = Some cs \<and> p < length (heap st)"
  then show "roots (remove st a) = roots st" by (simp add: remove_child)
  from c show "children (node (remove st a) p) = Some (del cs a)" by (simp add: remove_child)
  from c show "changes (remove st a) = changes st @ [PModel]" by (simp add: remove_child)
  from c show "emitted (remove st a) = emitted st @ [None]" by (simp add: remove_child)
  fix b
  assume "b \<noteq> p"
  with c show "node (remove st a) b = node st b" by (simp add: remove_child)
next
  assume "a \<notin> set xs"
  then show "del xs a = xs" by (rule del_absent)
next
  assume "a \<in> set xs"
  then show "\<exists>pre post. xs = pre @ a # post \<and> a \<notin> set pre \<and> del xs a = pre @ post"
    by (rule del_present)
qed

text \<open>
  The theorem at work: removing the root \<open>R1\<close> of three roots leaves two roots and
  fires one event; removing it again finds no array and does nothing; removing the
  child \<open>B\<close> of \<open>X\<close> leaves the children \<open>A\<close> and \<open>J\<close>.
\<close>

theorem C5_remove_witness:
  "roots (remove three_roots 1) = [0, 2] \<and>
   changes (remove three_roots 1) = [PModel] \<and>
   emitted (remove three_roots 1) = [None] \<and>
   remove (remove three_roots 1) 1 = remove three_roots 1 \<and>
   children (node (remove family 2) 0) = Some [1, 3] \<and>
   changes (remove family 2) = [PModel] \<and>
   del [2, 3] (1::nat) = [2, 3]"
proof -
  have h1: "1 \<in> set (roots three_roots)" and h2: "siblings_of (remove three_roots 1) 1 = None"
    and h3: "2 \<notin> set (roots family) \<and> parent (node family 2) = Some 0 \<and>
             children (node family 0) = Some [1, 2, 3] \<and> 0 < length (heap family)"
    and h4: "(1::nat) \<notin> set [2, 3]"
    by (simp_all add: three_roots_eq family_eq model_defs)
  have e: "del (roots three_roots) 1 = [0, 2]" "changes three_roots = []"
    "emitted three_roots = []" "del [1, 2, 3] (2::nat) = [1, 3]" "changes family = []"
    by (simp_all add: three_roots_eq family_eq model_defs)
  from C5_remove_guarded_by_array [of three_roots 1 0 "[]" "[]"] h1
  have "roots (remove three_roots 1) = del (roots three_roots) 1 \<and>
        changes (remove three_roots 1) = changes three_roots @ [PModel] \<and>
        emitted (remove three_roots 1) = emitted three_roots @ [None]"
    by blast
  then have "roots (remove three_roots 1) = [0, 2] \<and> changes (remove three_roots 1) = [PModel] \<and>
        emitted (remove three_roots 1) = [None]"
    by (simp only: e append_Nil)
  moreover from C5_remove_guarded_by_array [of "remove three_roots 1" 1 0 "[]" "[2, 3]"] h2 h4
  have "remove (remove three_roots 1) 1 = remove three_roots 1 \<and> del [2, 3] (1::nat) = [2, 3]"
    by blast
  moreover from C5_remove_guarded_by_array [of family 2 0 "[1, 2, 3]" "[]"] h3
  have "children (node (remove family 2) 0) = Some (del [1, 2, 3] 2) \<and>
        changes (remove family 2) = changes family @ [PModel]"
    by blast
  then have "children (node (remove family 2) 0) = Some [1, 3] \<and>
        changes (remove family 2) = [PModel]"
    by (simp only: e append_Nil)
  ultimately show ?thesis by blast
qed

text \<open>
  The claim as written fails for a node that its sibling array no longer holds. After
  the child \<open>A\<close> (node 1) of \<open>X\<close> has been removed, it is in no array: not in the
  roots, not among the children \<open>[2, 3]\<close> of its parent. Removing it again changes no
  array and still fires an event.
\<close>

theorem C5_second_removal_fires:
  "1 \<notin> set (roots (remove family 1)) \<and>
   siblings_of (remove family 1) 1 = Some [2, 3] \<and>
   heap (remove (remove family 1) 1) = heap (remove family 1) \<and>
   roots (remove (remove family 1) 1) = roots (remove family 1) \<and>
   changes (remove family 1) = [PModel] \<and>
   changes (remove (remove family 1) 1) = [PModel, PModel]"
  by (simp add: family_eq model_defs)

section \<open>Child resolution\<close>

lemma resolveTypes_heap_prefix:
  "resolveTypes lc q st a = (r, st1) \<Longrightarrow> \<exists>ns. heap st1 = heap st @ ns"
  by (auto simp: resolveTypes_def executeCommand_def Let_def split: reply.splits)

lemma getTypeChildren_cached:
  "children (node st a) = Some cs \<Longrightarrow> getTypeChildren lc q st a = (Inr cs, st)"
  by (simp add: getTypeChildren_def)

lemma getTypeChildren_caches:
  assumes "a < length (heap st)" and "getTypeChildren lc q st a = (Inr cs, st1)"
  shows "children (node st1 a) = Some cs"
proof (cases "children (node st a)")
  case (Some ds)
  with assms show ?thesis by (simp add: getTypeChildren_def)
next
  case None
  obtain r st2 where res: "resolveTypes lc q st a = (r, st2)"
    by (cases "resolveTypes lc q st a")
  then obtain ns where "heap st2 = heap st @ ns"
    using resolveTypes_heap_prefix by blast
  with assms(1) have "a < length (heap st2)" by simp
  with None res assms(2) show ?thesis
    by (auto simp: getTypeChildren_def node_set_node split: sum.splits)
qed

text \<open>
  C7 (resolution idempotence). A node whose \<^verbatim>\<open>children\<close> are set gets them back and
  the state, the log of fetches included, is unchanged. So after any first call that
  returned, a second call returns the same sequence and fetches nothing, whatever the
  service would answer.
\<close>

theorem C7_resolution_idempotent:
  "(children (node st a) = Some cs \<longrightarrow> getTypeChildren lc q st a = (Inr cs, st)) \<and>
   (a < length (heap st) \<and> getTypeChildren lc q st a = (Inr cs, st1) \<longrightarrow>
      getTypeChildren lc q2 st1 a = (Inr cs, st1))"
  using getTypeChildren_cached getTypeChildren_caches by blast

text \<open>
  The subtypes of \<open>X\<close> are resolved once (\<open>family\<close> is the state after that call);
  a second call returns the three cached children, also when the service rejects
  everything.
\<close>

theorem C7_resolution_idempotent_witness:
  "getTypeChildren codeCompare example_service (root_X Subtype) 0 = (Inr [1, 2, 3], family) \<and>
   getTypeChildren codeCompare failing_service family 0 = (Inr [1, 2, 3], family) \<and>
   fetches (snd (getTypeChildren codeCompare failing_service family 0)) = fetches family"
proof -
  have "fst (getTypeChildren codeCompare example_service (root_X Subtype) 0) = Inr [1, 2, 3]"
    by (simp add: root_X_eq model_defs upt_rec)
  then have first: "getTypeChildren codeCompare example_service (root_X Subtype) 0
      = (Inr [1, 2, 3], family)"
    by (simp add: family_def prod_eq_iff)
  have "0 < length (heap (root_X Subtype))" by (simp add: root_X_eq)
  with first C7_resolution_idempotent
    [of "root_X Subtype" 0 "[1, 2, 3]" codeCompare example_service family failing_service]
  have "getTypeChildren codeCompare failing_service family 0 = (Inr [1, 2, 3], family)"
    by blast
  with first show ?thesis by simp
qed

lemma getTypeChildren_unresolved:
  assumes "children (node st a) = None" "a < length (heap st)"
  shows "q (fetches st) (if view st = Supertype then Supertypes else Subtypes)
           (item (node st a)) = Absent \<Longrightarrow>
         fst (getTypeChildren lc q st a) = Inr [] \<and>
         children (node (snd (getTypeChildren lc q st a)) a) = Some []"
    and "q (fetches st) (if view st = Supertype then Supertypes else Subtypes)
           (item (node st a)) = Items [] \<Longrightarrow>
         fst (getTypeChildren lc q st a) = Inr [] \<and>
         children (node (snd (getTypeChildren lc q st a)) a) = Some []"
    and "q (fetches st) (if view st = Supertype then Supertypes else Subtypes)
           (item (node st a)) = Rejected \<Longrightarrow>
         fst (getTypeChildren lc q st a) = Inl QueryRejected \<and>
         heap (snd (getTypeChildren lc q st a)) = heap st"
  using assms
  by (simp_all add: getTypeChildren_def resolveTypes_def executeCommand_def sort_types_def
      js_sort_def node_set_node Let_def split: if_splits)

text \<open>
  C8 (failure semantics), as amended. For an unresolved node, a fetch with no result
  (\<^verbatim>\<open>undefined\<close>) and a fetch with an empty result both return the empty sequence and
  cache \<^verbatim>\<open>children = []\<close>. A fetch that fails (the command rejects) is not caught:
  the caller gets the error and the arena is as before, so \<^verbatim>\<open>children\<close> stays
  \<^verbatim>\<open>undefined\<close>.
\<close>

theorem C8_absent_is_cached_empty:
  assumes "children (node st a) = None" and "a < length (heap st)"
  shows
    "(q (fetches st) (if view st = Supertype then Supertypes else Subtypes)
        (item (node st a)) = Absent \<longrightarrow>
      fst (getTypeChildren lc q st a) = Inr [] \<and>
      children (node (snd (getTypeChildren lc q st a)) a) = Some []) \<and>
     (q (fetches st) (if view st = Supertype then Supertypes else Subtypes)
        (item (node st a)) = Items [] \<longrightarrow>
      fst (getTypeChildren lc q st a) = Inr [] \<and>
      children (node (snd (getTypeChildren lc q st a)) a) = Some []) \<and>
     (q (fetches st) (if view st = Supertype then Supertypes else Subtypes)
        (item (node st a)) = Rejected \<longrightarrow>
      fst (getTypeChildren lc q st a) = Inl QueryRejected \<and>
      heap (snd (getTypeChildren lc q st a)) = heap st)"
  using getTypeChildren_unresolved [OF assms] by blast

text \<open>
  The root \<open>R0\<close> of the three roots: the example service has no result for it, the
  failing service rejects.
\<close>

theorem C8_absent_is_cached_empty_witness:
  "fst (getTypeChildren codeCompare example_service three_roots 0) = Inr [] \<and>
   children (node (snd (getTypeChildren codeCompare example_service three_roots 0)) 0) = Some [] \<and>
   fst (getTypeChildren codeCompare failing_service three_roots 0) = Inl QueryRejected \<and>
   heap (snd (getTypeChildren codeCompare failing_service three_roots 0)) = heap three_roots"
proof -
  have h: "children (node three_roots 0) = None" "0 < length (heap three_roots)"
    by (simp_all add: three_roots_eval)
  have a: "example_service (fetches three_roots)
             (if view three_roots = Supertype then Supertypes else Subtypes)
             (item (node three_roots 0)) = Absent"
    by (simp add: three_roots_eq model_defs)
  have r: "failing_service (fetches three_roots)
             (if view three_roots = Supertype then Supertypes else Subtypes)
             (item (node three_roots 0)) = Rejected"
    by (simp add: failing_service_def)
  from C8_absent_is_cached_empty [OF h, of example_service codeCompare] a
    C8_absent_is_cached_empty [OF h, of failing_service codeCompare] r
  show ?thesis by blast
qed

text \<open>
  The claim as written fails for a query that fails: the rejection reaches the caller
  as an error and nothing is cached.
\<close>

theorem C8_rejection_propagates:
  "fst (getTypeChildren codeCompare failing_service three_roots 0) = Inl QueryRejected \<and>
   children (node (snd (getTypeChildren codeCompare failing_service three_roots 0)) 0) = None"
  by (simp add: three_roots_eq model_defs)

section \<open>Display state\<close>





section \<open>What the operations leave alone\<close>

lemma link_parent_fields [simp]:
  "roots (link_parent st a s) = roots st"
  "view (link_parent st a s) = view st"
  "changes (link_parent st a s) = changes st"
  "emitted (link_parent st a s) = emitted st"
  "fetches (link_parent st a s) = fetches st"
  "prefetch (link_parent st a s) = prefetch st"
  "length (heap (link_parent st a s)) = Suc (length (heap st))"
  by (simp_all add: link_parent_def Let_def)

lemma fire_change_fields [simp]:
  "heap (fire_change st e) = heap st" "roots (fire_change st e) = roots st"
  "view (fire_change st e) = view st" "prefetch (fire_change st e) = prefetch st"
  "fetches (fire_change st e) = fetches st"
  by (simp_all add: fire_change_def)

lemma resolveTypes_frame:
  "roots (snd (resolveTypes lc q st a)) = roots st"
  "view (snd (resolveTypes lc q st a)) = view st"
  "changes (snd (resolveTypes lc q st a)) = changes st"
  "emitted (snd (resolveTypes lc q st a)) = emitted st"
  "prefetch (snd (resolveTypes lc q st a)) = prefetch st"
  by (simp_all add: resolveTypes_def executeCommand_def Let_def split: reply.splits)

lemma getTypeChildren_frame:
  "roots (snd (getTypeChildren lc q st a)) = roots st"
  "view (snd (getTypeChildren lc q st a)) = view st"
  "changes (snd (getTypeChildren lc q st a)) = changes st"
  "emitted (snd (getTypeChildren lc q st a)) = emitted st"
  "prefetch (snd (getTypeChildren lc q st a)) = prefetch st"
  using resolveTypes_frame [of lc q st a]
  by (auto simp: getTypeChildren_def split: option.splits prod.splits sum.splits)

lemma getChildrenOf_frame:
  "roots (snd (getChildrenOf lc q st a)) = roots st"
  "view (snd (getChildrenOf lc q st a)) = view st"
  "changes (snd (getChildrenOf lc q st a)) = changes st"
  "prefetch (snd (getChildrenOf lc q st a)) = prefetch st"
  "filter (\<lambda>x. x = None) (emitted (snd (getChildrenOf lc q st a)))
     = filter (\<lambda>x. x = None) (emitted st)"
  using getTypeChildren_frame [of lc q st a]
  by (auto simp: getChildrenOf_def split: prod.splits sum.splits)

lemma getTreeItem_frame:
  "roots (snd (getTreeItem lc q st a)) = roots st"
  "view (snd (getTreeItem lc q st a)) = view st"
  "changes (snd (getTreeItem lc q st a)) = changes st"
  "prefetch (snd (getTreeItem lc q st a)) = prefetch st"
  "filter (\<lambda>x. x = None) (emitted (snd (getTreeItem lc q st a)))
     = filter (\<lambda>x. x = None) (emitted st)"
  using getChildrenOf_frame [of lc q st a]
  by (auto simp: getTreeItem_def split: prod.splits sum.splits)

lemma getClassViewRoot_frame:
  assumes "getClassViewRoot q st a = Some res"
  shows "roots (snd res) = roots st \<and> view (snd res) = view st \<and>
         changes (snd res) = changes st \<and> emitted (snd res) = emitted st \<and>
         prefetch (snd res) = prefetch st"
  using assms
proof (induction rule: getClassViewRoot.raw_induct [rotated 1, consumes 1])
  case (1 climb q st a res)
  obtain rep st1 where ex: "executeCommand q
      (set_node st a ((node st a)\<lparr>expand := Some True\<rparr>)) Supertypes (item (node st a))
      = (rep, st1)"
    by (cases "executeCommand q (set_node st a ((node st a)\<lparr>expand := Some True\<rparr>))
      Supertypes (item (node st a))")
  then have fr: "roots st1 = roots st" "view st1 = view st" "changes st1 = changes st"
    "emitted st1 = emitted st" "prefetch st1 = prefetch st"
    by (auto simp: executeCommand_def)
  show ?case
  proof (cases rep)
    case Rejected
    with 1(2) ex fr show ?thesis by auto
  next
    case Absent
    with 1(2) ex fr show ?thesis by auto
  next
    case (Items ss)
    show ?thesis
    proof (cases "find (\<lambda>s. kind s = SymbolKind_Class) ss")
      case None
      with Items 1(2) ex fr show ?thesis by (auto split: if_splits)
    next
      case (Some s)
      then have "ss \<noteq> []" by auto
      with Some Items 1(2) ex
      have "climb q (link_parent st1 a s) (length (heap st1)) = Some res" by simp
      from 1(1) [OF this] fr show ?thesis by simp
    qed
  qed
qed

lemma remove_frame:
  "view (remove st a) = view st" "prefetch (remove st a) = prefetch st"
  by (auto simp: remove_def split: option.splits)


section \<open>Class-view root materialization\<close>

lemma executeCommand_marked:
  "executeCommand q (set_node st a ((node st a)\<lparr>expand := Some True\<rparr>)) Supertypes
     (item (node st a)) = (q (fetches st) Supertypes (item (node st a)), marked st a)"
  by (simp add: executeCommand_def marked_def)

lemma find_none_class:
  "(find (\<lambda>s. kind s = SymbolKind_Class) ss = None) = (\<forall>s \<in> set ss. kind s \<noteq> SymbolKind_Class)"
  by (auto simp: find_None_iff)

lemma find_first_class:
  assumes "\<forall>x \<in> set pre. kind x \<noteq> SymbolKind_Class" "kind s = SymbolKind_Class"
  shows "find (\<lambda>s. kind s = SymbolKind_Class) (pre @ s # post) = Some s"
  using assms by (induction pre) simp_all

lemma climb_stops:
  assumes "q (fetches st) Supertypes (item (node st a)) = Absent \<or>
    (\<exists>ss. q (fetches st) Supertypes (item (node st a)) = Items ss \<and>
          (\<forall>s \<in> set ss. kind s \<noteq> SymbolKind_Class))"
  shows "getClassViewRoot q st a = Some (Inr a, marked st a)"
proof -
  from assms consider "q (fetches st) Supertypes (item (node st a)) = Absent"
    | ss where "q (fetches st) Supertypes (item (node st a)) = Items ss"
      "find (\<lambda>s. kind s = SymbolKind_Class) ss = None"
    using find_none_class by blast
  then show ?thesis
    by cases (subst getClassViewRoot.simps, simp add: executeCommand_marked)+
qed

lemma climb_steps:
  assumes "q (fetches st) Supertypes (item (node st a)) = Items (pre @ s # post)"
    "\<forall>x \<in> set pre. kind x \<noteq> SymbolKind_Class" "kind s = SymbolKind_Class"
  shows "getClassViewRoot q st a
    = getClassViewRoot q (link_parent (marked st a) a s) (length (heap st))"
  using assms find_first_class [OF assms(2,3), of post]
  by (subst getClassViewRoot.simps) (simp add: executeCommand_marked marked_def)

lemma marked_fields [simp]:
  "length (heap (marked st a)) = length (heap st)"
  "roots (marked st a) = roots st"
  "fetches (marked st a) = fetches st @ [(Supertypes, item (node st a))]"
  by (simp_all add: marked_def)

lemma node_marked:
  "node (marked st a) b
     = (if b = a \<and> a < length (heap st) then (node st a)\<lparr>expand := Some True\<rparr> else node st b)"
  using node_set_node [of st a "(node st a)\<lparr>expand := Some True\<rparr>" b]
  by (simp add: marked_def node_def)

lemma node_link_parent:
  assumes "a < length (heap st)"
  shows "node (link_parent st a s) (length (heap st)) = (new_TypeItem s None)\<lparr>children := Some [a]\<rparr>"
    and "node (link_parent st a s) a = (node st a)\<lparr>parent := Some (length (heap st))\<rparr>"
    and "b \<noteq> a \<Longrightarrow> b < length (heap st) \<Longrightarrow> node (link_parent st a s) b = node st b"
  using assms
  by (auto simp: link_parent_def Let_def node_def set_node_def nth_append nth_list_update)

lemma linked_shape:
  assumes "a < length (heap st)"
  shows "node (link_parent (marked st a) a s) (length (heap st))
           = \<lparr>item = s, children = Some [a], parent = None, expand = None\<rparr>"
    and "node (link_parent (marked st a) a s) a
           = (node st a)\<lparr>expand := Some True, parent := Some (length (heap st))\<rparr>"
    and "b \<noteq> a \<Longrightarrow> b < length (heap st) \<Longrightarrow> node (link_parent (marked st a) a s) b = node st b"
    and "roots (link_parent (marked st a) a s) = roots st"
    and "length (heap (link_parent (marked st a) a s)) = Suc (length (heap st))"
proof -
  from assms have m: "a < length (heap (marked st a))" by simp
  from node_link_parent(1) [OF m, of s]
  show "node (link_parent (marked st a) a s) (length (heap st))
           = \<lparr>item = s, children = Some [a], parent = None, expand = None\<rparr>"
    by (simp add: new_TypeItem_def)
  from node_link_parent(2) [OF m, of s] assms
  show "node (link_parent (marked st a) a s) a
           = (node st a)\<lparr>expand := Some True, parent := Some (length (heap st))\<rparr>"
    by (simp add: node_marked)
  show "roots (link_parent (marked st a) a s) = roots st"
    and "length (heap (link_parent (marked st a) a s)) = Suc (length (heap st))"
    by simp_all
  assume "b \<noteq> a" "b < length (heap st)"
  with node_link_parent(3) [OF m, of b s]
  show "node (link_parent (marked st a) a s) b = node st b"
    by (simp add: node_marked)
qed

lemma climb_top:
  assumes "getClassViewRoot q st a = Some res" and "a < length (heap st)"
  shows "case res of
           (Inl e, st1) \<Rightarrow> True
         | (Inr t, st1) \<Rightarrow>
             a \<le> t \<and> t < length (heap st1) \<and> expand (node st1 t) = Some True \<and>
             (if t = a then parent (node st1 t) = parent (node st a) \<and>
                            children (node st1 t) = children (node st a)
              else parent (node st1 t) = None \<and> (\<exists>c. children (node st1 t) = Some [c]))"
  using assms
proof (induction rule: getClassViewRoot.raw_induct [rotated 1, consumes 1])
  case (1 climb q st a res)
  note ex = executeCommand_marked [of q st a]
  show ?case
  proof (cases "q (fetches st) Supertypes (item (node st a))")
    case Rejected
    with 1(2) ex show ?thesis by auto
  next
    case Absent
    with 1(2,3) ex show ?thesis by (auto simp: node_marked)
  next
    case (Items ss)
    show ?thesis
    proof (cases "find (\<lambda>s. kind s = SymbolKind_Class) ss")
      case None
      with Items 1(2,3) ex show ?thesis by (auto simp: node_marked split: if_splits)
    next
      case (Some s)
      then have "ss \<noteq> []" by auto
      with Some Items 1(2) ex
      have rec: "climb q (link_parent (marked st a) a s) (length (heap st)) = Some res"
        by simp
      have lt: "length (heap st) < length (heap (link_parent (marked st a) a s))"
        by (simp add: linked_shape(5) [OF 1(3)])
      from 1(1) [OF rec lt] linked_shape(1) [OF 1(3), of s] 1(3)
      show ?thesis
        by (cases res) (auto split: sum.splits if_splits)
    qed
  qed
qed

lemma climb_interface_then_class:
  assumes a: "a < length (heap st)"
    and r: "q (fetches st) Supertypes (item (node st a)) = Items [i, y]"
    and k: "kind i \<noteq> SymbolKind_Class" "kind y = SymbolKind_Class"
    and top: "q (fetches st @ [(Supertypes, item (node st a))]) Supertypes y = Absent"
  shows "\<exists>st1. getClassViewRoot q st a = Some (Inr (length (heap st)), st1) \<and>
     node st1 (length (heap st)) = \<lparr>item = y, children = Some [a], parent = None, expand = Some True\<rparr>"
proof -
  let ?L = "link_parent (marked st a) a y"
  let ?p = "length (heap st)"
  from r k have "getClassViewRoot q st a = getClassViewRoot q ?L ?p"
    using climb_steps [of q st a "[i]" y "[]"] by simp
  moreover have "q (fetches ?L) Supertypes (item (node ?L ?p)) = Absent"
    using top by (simp add: linked_shape(1) [OF a])
  then have "getClassViewRoot q ?L ?p = Some (Inr ?p, marked ?L ?p)"
    using climb_stops [of q ?L ?p] by simp
  moreover have "node (marked ?L ?p) ?p
      = \<lparr>item = y, children = Some [a], parent = None, expand = Some True\<rparr>"
    by (simp add: node_marked linked_shape(1) [OF a])
  ultimately show ?thesis by simp
qed


text \<open>
  C2 (class-view root materialization). With \<open>marked st a\<close> the state after
  \<^verbatim>\<open>rootClass.expand = true\<close> and the query:
  \<^item> when the supertype query has no result, or a result with no class-kind item, the
    current node is returned as the top of the chain;
  \<^item> when the result is \<open>pre @ s # post\<close> with no class-kind item in \<open>pre\<close> and \<open>s\<close>
    class-kind (the first class-kind item, interfaces and other kinds skipped), a new
    node is made for \<open>s\<close> with no parent and the original node as its sole cached
    child, the original node gets the new node as parent, and the climb goes on from
    the new node;
  \<^item> whatever top a climb returns is marked \<open>expand = true\<close>, and a top other than
    the starting node has no parent and exactly one cached child;
  \<^item> for a class node whose supertypes are an interface and then a class \<open>y\<close> that has
    no supertypes, the climb returns: the result is the new node of \<open>y\<close>, whose sole
    child is the starting node and whose \<open>expand\<close> is true.
\<close>

theorem C2_class_view_root:
  "(q (fetches st) Supertypes (item (node st a)) = Absent \<or>
    (\<exists>ss. q (fetches st) Supertypes (item (node st a)) = Items ss \<and>
          (\<forall>s \<in> set ss. kind s \<noteq> SymbolKind_Class)) \<longrightarrow>
      getClassViewRoot q st a = Some (Inr a, marked st a)) \<and>
   (a < length (heap st) \<and>
    q (fetches st) Supertypes (item (node st a)) = Items (pre @ s # post) \<and>
    (\<forall>x \<in> set pre. kind x \<noteq> SymbolKind_Class) \<and> kind s = SymbolKind_Class \<longrightarrow>
      getClassViewRoot q st a
        = getClassViewRoot q (link_parent (marked st a) a s) (length (heap st)) \<and>
      node (link_parent (marked st a) a s) (length (heap st))
        = \<lparr>item = s, children = Some [a], parent = None, expand = None\<rparr> \<and>
      node (link_parent (marked st a) a s) a
        = (node st a)\<lparr>expand := Some True, parent := Some (length (heap st))\<rparr>) \<and>
   (a < length (heap st) \<and> getClassViewRoot q st a = Some (Inr t, st1) \<longrightarrow>
      a \<le> t \<and> expand (node st1 t) = Some True \<and>
      (t \<noteq> a \<longrightarrow> parent (node st1 t) = None \<and> (\<exists>c. children (node st1 t) = Some [c]))) \<and>
   (a < length (heap st) \<and>
    q (fetches st) Supertypes (item (node st a)) = Items [i, y] \<and>
    kind i \<noteq> SymbolKind_Class \<and> kind y = SymbolKind_Class \<and>
    q (fetches st @ [(Supertypes, item (node st a))]) Supertypes y = Absent \<longrightarrow>
      (\<exists>st2. getClassViewRoot q st a = Some (Inr (length (heap st)), st2) \<and>
         node st2 (length (heap st))
           = \<lparr>item = y, children = Some [a], parent = None, expand = Some True\<rparr>))"
proof (intro conjI impI)
  assume "q (fetches st) Supertypes (item (node st a)) = Absent \<or>
    (\<exists>ss. q (fetches st) Supertypes (item (node st a)) = Items ss \<and>
          (\<forall>s \<in> set ss. kind s \<noteq> SymbolKind_Class))"
  then show "getClassViewRoot q st a = Some (Inr a, marked st a)" by (rule climb_stops)
next
  assume h: "a < length (heap st) \<and>
    q (fetches st) Supertypes (item (node st a)) = Items (pre @ s # post) \<and>
    (\<forall>x \<in> set pre. kind x \<noteq> SymbolKind_Class) \<and> kind s = SymbolKind_Class"
  then show "getClassViewRoot q st a
        = getClassViewRoot q (link_parent (marked st a) a s) (length (heap st))"
    using climb_steps [of q st a pre s post] by blast
  from h show "node (link_parent (marked st a) a s) (length (heap st))
        = \<lparr>item = s, children = Some [a], parent = None, expand = None\<rparr>"
    by (simp add: linked_shape(1))
  from h show "node (link_parent (marked st a) a s) a
        = (node st a)\<lparr>expand := Some True, parent := Some (length (heap st))\<rparr>"
    by (simp add: linked_shape(2))
next
  assume h: "a < length (heap st) \<and> getClassViewRoot q st a = Some (Inr t, st1)"
  then have c: "getClassViewRoot q st a = Some (Inr t, st1)" and l: "a < length (heap st)"
    by simp_all
  from climb_top [OF c l] show "a \<le> t" "expand (node st1 t) = Some True" by simp_all
  assume "t \<noteq> a"
  with climb_top [OF c l]
  show "parent (node st1 t) = None" "\<exists>c. children (node st1 t) = Some [c]" by simp_all
next
  assume "a < length (heap st) \<and>
    q (fetches st) Supertypes (item (node st a)) = Items [i, y] \<and>
    kind i \<noteq> SymbolKind_Class \<and> kind y = SymbolKind_Class \<and>
    q (fetches st @ [(Supertypes, item (node st a))]) Supertypes y = Absent"
  then show "\<exists>st2. getClassViewRoot q st a = Some (Inr (length (heap st)), st2) \<and>
         node st2 (length (heap st))
           = \<lparr>item = y, children = Some [a], parent = None, expand = Some True\<rparr>"
    using climb_interface_then_class [of a st q i y] by blast
qed


text \<open>
  The class \<open>X\<close> with the supertypes \<open>[I, Y]\<close> of the example service: the climb
  returns the new node 1 for \<open>Y\<close>.
\<close>

theorem C2_class_view_root_witness:
  "\<exists>st2. getClassViewRoot example_service (root_X Class) 0 = Some (Inr 1, st2) \<and>
     node st2 1 = \<lparr>item = mk_item ''Y'' SymbolKind_Class, children = Some [0], parent = None,
                   expand = Some True\<rparr>"
proof -
  have h: "0 < length (heap (root_X Class)) \<and>
    example_service (fetches (root_X Class)) Supertypes (item (node (root_X Class) 0))
      = Items [mk_item ''I'' SymbolKind_Interface, mk_item ''Y'' SymbolKind_Class] \<and>
    kind (mk_item ''I'' SymbolKind_Interface) \<noteq> SymbolKind_Class \<and>
    kind (mk_item ''Y'' SymbolKind_Class) = SymbolKind_Class \<and>
    example_service (fetches (root_X Class) @ [(Supertypes, item (node (root_X Class) 0))])
      Supertypes (mk_item ''Y'' SymbolKind_Class) = Absent"
    by (simp add: root_X_eq model_defs)
  have l: "length (heap (root_X Class)) = 1" by (simp add: root_X_eq)
  from C2_class_view_root [of example_service "root_X Class" 0 "[]"
      "mk_item ''Y'' SymbolKind_Class" "[]" 0 "root_X Class"
      "mk_item ''I'' SymbolKind_Interface" "mk_item ''Y'' SymbolKind_Class"] h
  show ?thesis unfolding l by blast
qed


lemma climb_X: "getClassViewRoot example_service (root_X Class) 0 = Some (Inr 1, class_chain)"
  apply (subst getClassViewRoot.simps)
  apply (simp add: root_X_eq model_defs link_parent_def)
  apply (subst getClassViewRoot.simps)
  apply (simp add: class_chain_def model_defs)
  done

lemma getChildren_X:
  "getChildren codeCompare example_service (root_X Class) None = Some (Inr [1], class_chain)"
proof -
  have "view (root_X Class) = Class"
    and "find (\<lambda>root. kind (item (node (root_X Class) root)) = SymbolKind_Class)
           (roots (root_X Class)) = Some 0"
    by (simp_all add: root_X_eq model_defs)
  then show ?thesis by (simp add: getChildren_def climb_X)
qed


section \<open>Parent links\<close>

lemma TypesModel_unparented: "roots_unparented (TypesModel v pf its)"
  by (simp add: roots_unparented_def TypesModel_def node_def new_TypeItem_def)

lemma parents_kept_refl: "parents_kept st st"
  by (simp add: parents_kept_def)

lemma built_under_same: "length (heap st1) = length (heap st) \<Longrightarrow> built_under st st1 a"
  by (auto simp: built_under_def)

lemma resolveTypes_parents:
  "parents_kept st (snd (resolveTypes lc q st a))"
  "built_under st (snd (resolveTypes lc q st a)) a"
  by (auto simp: parents_kept_def built_under_def resolveTypes_def executeCommand_def Let_def
      node_def nth_append new_TypeItem_def split: reply.splits)

lemma set_children_parents:
  "parents_kept st st1 \<Longrightarrow> parents_kept st (set_node st1 a ((node st1 a)\<lparr>children := cs\<rparr>))"
  "built_under st st1 b \<Longrightarrow> built_under st (set_node st1 a ((node st1 a)\<lparr>children := cs\<rparr>)) b"
  by (auto simp: parents_kept_def built_under_def node_set_node)

lemma getTypeChildren_parents:
  "parents_kept st (snd (getTypeChildren lc q st a))"
  "built_under st (snd (getTypeChildren lc q st a)) a"
  using resolveTypes_parents [of st lc q a]
  by (auto simp: getTypeChildren_def parents_kept_refl built_under_same set_children_parents
      split: option.splits prod.splits sum.splits)

lemma emitted_update_parents:
  "parents_kept st st1 \<Longrightarrow> parents_kept st (st1\<lparr>emitted := es\<rparr>)"
  "built_under st st1 b \<Longrightarrow> built_under st (st1\<lparr>emitted := es\<rparr>) b"
  by (auto simp: parents_kept_def built_under_def node_def)

lemma getChildrenOf_parents:
  "parents_kept st (snd (getChildrenOf lc q st a))"
  "built_under st (snd (getChildrenOf lc q st a)) a"
  using getTypeChildren_parents [of st lc q a]
  by (auto simp: getChildrenOf_def emitted_update_parents split: prod.splits sum.splits)

lemma getTreeItem_parents:
  "parents_kept st (snd (getTreeItem lc q st a))"
  "built_under st (snd (getTreeItem lc q st a)) a"
  using getChildrenOf_parents [of st lc q a]
  by (auto simp: getTreeItem_def parents_kept_refl built_under_same set_children_parents
      split: prod.splits sum.splits)

lemma remove_heap:
  "heap (remove st a) = heap st \<or>
   (\<exists>p cs. heap (remove st a) = (heap st)[p := (heap st ! p)\<lparr>children := cs\<rparr>])"
  by (auto simp: remove_def set_node_def node_def split: option.splits)

lemma parent_children_update:
  "parent (hp[p := (hp ! p)\<lparr>children := cs\<rparr>] ! b) = parent (hp ! b)"
  by (cases "p < length hp"; cases "b = p") (simp_all add: list_update_beyond)

lemma remove_parents: "parents_kept st (remove st a)"
  using remove_heap [of st a]
  by (auto simp: parents_kept_def node_def parent_children_update)

lemma remove_roots: "set (roots (remove st a)) \<subseteq> set (roots st)"
proof (cases "a \<in> set (roots st)")
  case True
  then have "roots (remove st a) = remove1 a (roots st)"
    by (simp add: remove_def del_def)
  then show ?thesis using set_remove1_subset [of a "roots st"] by simp
next
  case False
  then have "roots (remove st a) = roots st"
    by (simp add: remove_def split: option.splits)
  then show ?thesis by simp
qed

lemma unparented_step:
  assumes "roots_unparented st" "parents_kept st st1" "set (roots st1) \<subseteq> set (roots st)"
  shows "roots_unparented st1"
  using assms by (fastforce simp: roots_unparented_def parents_kept_def)

lemma built_underD: "built_under st st1 a \<Longrightarrow> x \<in> {OpGetTypeChildren a, OpGetTreeItem a, OpGetChildren (Some a)} \<Longrightarrow> built_by st st1 x"
  unfolding built_under_def built_by_def by blast

lemma built_by_same: "length (heap st1) = length (heap st) \<Longrightarrow> built_by st st1 x"
  by (auto simp: built_by_def)

lemma exec_parents:
  assumes "\<not> materializes st x" and "exec lc q st x = Some st1"
  shows "parents_kept st st1" "set (roots st1) \<subseteq> set (roots st)" "view st1 = view st"
    "built_by st st1 x"
proof -
  have "parents_kept st st1 \<and> set (roots st1) \<subseteq> set (roots st) \<and> view st1 = view st \<and>
    built_by st st1 x"
  proof (cases x)
    case (OpGetTypeChildren a)
    with assms(2) have "st1 = snd (getTypeChildren lc q st a)" by simp
    with OpGetTypeChildren getTypeChildren_parents [of st lc q a]
      getTypeChildren_frame [of lc q st a]
    show ?thesis by (simp add: built_underD)
  next
    case (OpRemove a)
    with assms(2) have "st1 = remove st a" by simp
    moreover from remove_heap [of st a] have "length (heap (remove st a)) = length (heap st)"
      by auto
    ultimately show ?thesis
      using remove_parents [of st a] remove_frame [of st a] remove_roots [of st a]
      by (simp add: built_by_same)
  next
    case (OpGetTreeItem a)
    with assms(2) have "st1 = snd (getTreeItem lc q st a)" by simp
    with OpGetTreeItem getTreeItem_parents [of st lc q a] getTreeItem_frame [of lc q st a]
    show ?thesis by (simp add: built_underD)
  next
    case (OpGetChildren e)
    show ?thesis
    proof (cases e)
      case None
      with OpGetChildren assms have "st1 = st"
        by (auto simp: materializes_def getChildren_def)
      then show ?thesis by (simp add: parents_kept_refl built_by_same)
    next
      case (Some a)
      with OpGetChildren assms(2) have "st1 = snd (getChildrenOf lc q st a)"
        by (auto simp: getChildren_def)
      with OpGetChildren Some getChildrenOf_parents [of st lc q a]
        getChildrenOf_frame [of lc q st a]
      show ?thesis by (simp add: built_underD)
    qed
  qed
  then show "parents_kept st st1" "set (roots st1) \<subseteq> set (roots st)" "view st1 = view st"
    "built_by st st1 x" by simp_all
qed

lemma run_unparented:
  "roots_unparented st \<Longrightarrow> (view st = Class \<longrightarrow> OpGetChildren None \<notin> set xs) \<Longrightarrow>
   run lc q st xs = Some st1 \<Longrightarrow> roots_unparented st1"
proof (induction xs arbitrary: st)
  case Nil
  then show ?case by simp
next
  case (Cons x xs)
  then obtain st2 where s: "exec lc q st x = Some st2" and r: "run lc q st2 xs = Some st1"
    by (auto split: option.splits)
  from Cons.prems(2) have nm: "\<not> materializes st x" by (auto simp: materializes_def)
  from exec_parents [OF nm s] Cons.prems(1) have u: "roots_unparented st2" and v: "view st2 = view st"
    using unparented_step by blast+
  from Cons.prems(2) v have "view st2 = Class \<longrightarrow> OpGetChildren None \<notin> set xs" by simp
  from Cons.IH [OF u this r] show ?case .
qed


lemma climb_links_marked: "climb_links st (marked st a) a"
  by (auto simp: climb_links_def node_marked)

lemma climb_links_step:
  assumes a: "a < length (heap st)"
    and rec: "climb_links (link_parent (marked st a) a s) st1 (length (heap st))"
  shows "climb_links st st1 a"
proof -
  let ?L = "link_parent (marked st a) a s"
  let ?n = "length (heap st)"
  note sh = linked_shape [OF a, where s = s]
  from rec have len: "Suc ?n \<le> length (heap st1)"
    and old: "\<And>b. b < Suc ?n \<Longrightarrow> b \<noteq> ?n \<Longrightarrow> parent (node st1 b) = parent (node ?L b)"
    and top: "parent (node st1 ?n) =
        (if length (heap st1) = Suc ?n then parent (node ?L ?n) else Some (Suc ?n))"
    and new: "\<And>b. Suc ?n \<le> b \<Longrightarrow> b < length (heap st1) \<Longrightarrow>
        parent (node st1 b) = (if Suc b < length (heap st1) then Some (Suc b) else None)"
    by (simp_all add: climb_links_def sh(5))
  have 1: "?n \<le> length (heap st1)" using len by simp
  have 2: "parent (node st1 b) = parent (node st b)" if "b < ?n" "b \<noteq> a" for b
    using old [of b] that sh(3) [of b] by simp
  have 3: "parent (node st1 a) = Some ?n"
    using old [of a] a sh(2) by simp
  have 4: "parent (node st1 b) = (if Suc b < length (heap st1) then Some (Suc b) else None)"
    if "?n \<le> b" "b < length (heap st1)" for b
  proof (cases "b = ?n")
    case True
    with top sh(1) len show ?thesis by auto
  next
    case False
    with that new [of b] show ?thesis by simp
  qed
  from 1 2 3 4 len show ?thesis
    unfolding climb_links_def by auto
qed

lemma climb_parents:
  assumes "getClassViewRoot q st a = Some res" and "a < length (heap st)"
  shows "climb_links st (snd res) a"
  using assms
proof (induction rule: getClassViewRoot.raw_induct [rotated 1, consumes 1])
  case (1 climb q st a res)
  note ex = executeCommand_marked [of q st a]
  show ?case
  proof (cases "q (fetches st) Supertypes (item (node st a))")
    case Rejected
    with 1(2) ex show ?thesis by (auto simp: climb_links_marked)
  next
    case Absent
    with 1(2) ex show ?thesis by (auto simp: climb_links_marked)
  next
    case (Items ss)
    show ?thesis
    proof (cases "find (\<lambda>s. kind s = SymbolKind_Class) ss")
      case None
      with Items 1(2) ex show ?thesis by (auto simp: climb_links_marked split: if_splits)
    next
      case (Some s)
      then have "ss \<noteq> []" by auto
      with Some Items 1(2) ex
      have rec: "climb q (link_parent (marked st a) a s) (length (heap st)) = Some res"
        by simp
      have lt: "length (heap st) < length (heap (link_parent (marked st a) a s))"
        by (simp add: linked_shape(5) [OF 1(3)])
      from 1(1) [OF rec lt] show ?thesis by (rule climb_links_step [OF 1(3)])
    qed
  qed
qed

lemma materialization_links:
  assumes m: "materializes st x" and e: "exec lc q st x = Some st1"
    and r: "\<forall>r \<in> set (roots st). r < length (heap st)"
  shows "st1 = st \<or> (\<exists>a \<in> set (roots st). climb_links st st1 a)"
proof -
  from m have x: "x = OpGetChildren None" and v: "view st = Class"
    by (simp_all add: materializes_def)
  show ?thesis
  proof (cases "find (\<lambda>root. kind (item (node st root)) = SymbolKind_Class) (roots st)")
    case None
    with x v e show ?thesis by (auto simp: getChildren_def)
  next
    case (Some a)
    then have a: "a \<in> set (roots st)" by (auto simp: find_Some_iff)
    from Some x v e obtain res where c: "getClassViewRoot q st a = Some res"
      and s: "st1 = snd res"
      by (auto simp: getChildren_def split: option.splits sum.splits prod.splits)
    from a r have "a < length (heap st)" by blast
    from climb_parents [OF c this] s a show ?thesis by blast
  qed
qed

lemma class_family_eq:
  "class_family =
     \<lparr>view = Class, roots = [0],
      heap = [(new_TypeItem (mk_item ''X'' 4) None)
                \<lparr>children := Some [2, 3, 4], parent := Some 1, expand := Some True\<rparr>,
              (new_TypeItem (mk_item ''Y'' 4) None)\<lparr>children := Some [0], expand := Some True\<rparr>,
              new_TypeItem (mk_item ''A'' 4) (Some 0),
              new_TypeItem (mk_item ''B'' 4) (Some 0),
              new_TypeItem (mk_item ''J'' 10) (Some 0)],
      changes = [], emitted = [],
      fetches = [(Supertypes, mk_item ''X'' 4), (Supertypes, mk_item ''Y'' 4),
                 (Subtypes, mk_item ''X'' 4)],
      prefetch = False\<rparr>"
  by (simp add: class_family_def class_chain_def model_defs upt_rec)

text \<open>
  C3 (parent invariant), as amended. The model as constructed has roots without parent.
  Every operation other than the class-view root materialization, from every state,
  keeps the parent of every existing node and gives every node it constructs the node
  whose children were resolved as parent; from a state whose roots have no parent it
  leads to such a state, so the roots have no parent after any sequence of operations
  that does not materialize a class-view root. A climb of the materialization reassigns
  one parent per step and no other: the node it climbs from gets the node synthesized
  above it as parent, every other existing node keeps its parent, and the last
  synthesized node has none; the top-level \<^verbatim>\<open>getChildren()\<close> of the Class view either
  changes nothing or is such a climb from a node of the root sequence.
\<close>

theorem C3_parents_fixed_but_for_the_climb:
  "roots_unparented (TypesModel v pf its) \<and>
   (\<not> materializes st x \<and> exec lc q st x = Some st1 \<longrightarrow>
      parents_kept st st1 \<and> built_by st st1 x) \<and>
   (roots_unparented st \<and> \<not> materializes st x \<and> exec lc q st x = Some st1 \<longrightarrow>
      roots_unparented st1) \<and>
   ((v = Class \<longrightarrow> OpGetChildren None \<notin> set xs) \<and>
    run lc q (TypesModel v pf its) xs = Some st2 \<longrightarrow> roots_unparented st2) \<and>
   (a < length (heap st) \<and> getClassViewRoot q st a = Some (res, st3) \<longrightarrow>
      climb_links st st3 a) \<and>
   (materializes st x \<and> exec lc q st x = Some st1 \<and>
    (\<forall>r \<in> set (roots st). r < length (heap st)) \<longrightarrow>
      st1 = st \<or> (\<exists>r \<in> set (roots st). climb_links st st1 r))"
proof (intro conjI impI)
  show "roots_unparented (TypesModel v pf its)" by (rule TypesModel_unparented)
next
  assume "\<not> materializes st x \<and> exec lc q st x = Some st1"
  then have nm: "\<not> materializes st x" and ex: "exec lc q st x = Some st1" by simp_all
  from exec_parents [OF nm ex] show "parents_kept st st1" "built_by st st1 x" by simp_all
next
  assume a: "roots_unparented st \<and> \<not> materializes st x \<and> exec lc q st x = Some st1"
  then have nm: "\<not> materializes st x" and ex: "exec lc q st x = Some st1" by simp_all
  from a exec_parents [OF nm ex] show "roots_unparented st1"
    using unparented_step by blast
next
  assume b: "(v = Class \<longrightarrow> OpGetChildren None \<notin> set xs) \<and>
    run lc q (TypesModel v pf its) xs = Some st2"
  have "view (TypesModel v pf its) = v" by (simp add: TypesModel_def)
  with b run_unparented [OF TypesModel_unparented, of v pf its xs lc q st2]
  show "roots_unparented st2" by simp
next
  assume "a < length (heap st) \<and> getClassViewRoot q st a = Some (res, st3)"
  then show "climb_links st st3 a"
    using climb_parents [of q st a "(res, st3)"] by simp
next
  assume "materializes st x \<and> exec lc q st x = Some st1 \<and>
    (\<forall>r \<in> set (roots st). r < length (heap st))"
  then show "st1 = st \<or> (\<exists>r \<in> set (roots st). climb_links st st1 r)"
    using materialization_links [of st x lc q st1] by blast
qed

text \<open>
  Resolving the children of \<open>X\<close> in the Subtype view, and then removing the child
  \<open>B\<close>; resolving the children of \<open>X\<close> in the Class view after the climb, where the
  root \<open>X\<close> has a parent and the new children still get \<open>X\<close> as theirs; the climb
  from \<open>X\<close> itself.
\<close>

theorem C3_parents_fixed_witness:
  "roots_unparented family \<and> parents_kept (root_X Subtype) family \<and>
   built_by (root_X Subtype) family (OpGetTypeChildren 0) \<and>
   roots_unparented (remove family 2) \<and>
   parents_kept class_chain class_family \<and>
   built_by class_chain class_family (OpGetTypeChildren 0) \<and>
   parent (node class_family 2) = Some 0 \<and>
   climb_links (root_X Class) class_chain 0 \<and>
   (\<exists>r \<in> set (roots (root_X Class)). climb_links (root_X Class) class_chain r)"
proof -
  note t = C3_parents_fixed_but_for_the_climb
  have u: "roots_unparented (root_X Subtype)"
    unfolding root_X_def by (rule TypesModel_unparented)
  have m: "\<not> materializes (root_X Subtype) (OpGetTypeChildren 0)"
    by (simp add: materializes_def)
  have e: "exec codeCompare example_service (root_X Subtype) (OpGetTypeChildren 0) = Some family"
    by (simp add: family_def)
  have r: "run codeCompare example_service
      (TypesModel Subtype False [mk_item ''X'' SymbolKind_Class])
      [OpGetTypeChildren 0, OpRemove 2] = Some (remove family 2)"
    by (simp add: family_def root_X_def)
  have n: "Subtype = Class \<longrightarrow> OpGetChildren None \<notin> set [OpGetTypeChildren 0, OpRemove 2]"
    by simp
  from t [where v = Subtype and pf = False and its = "[mk_item ''X'' SymbolKind_Class]"
      and st = "root_X Subtype" and x = "OpGetTypeChildren 0" and lc = codeCompare
      and q = example_service and ?st1.0 = family and xs = "[OpGetTypeChildren 0, OpRemove 2]"
      and ?st2.0 = "remove family 2"] u m e r n
  have 1: "roots_unparented family \<and> parents_kept (root_X Subtype) family \<and>
      built_by (root_X Subtype) family (OpGetTypeChildren 0) \<and>
      roots_unparented (remove family 2)"
    by blast
  have m2: "\<not> materializes class_chain (OpGetTypeChildren 0)"
    by (simp add: materializes_def)
  have e2: "exec codeCompare example_service class_chain (OpGetTypeChildren 0)
      = Some class_family"
    by (simp add: class_family_def)
  from t [where st = class_chain and x = "OpGetTypeChildren 0" and lc = codeCompare
      and q = example_service and ?st1.0 = class_family] m2 e2
  have 2: "parents_kept class_chain class_family \<and>
      built_by class_chain class_family (OpGetTypeChildren 0)"
    by blast
  have 3: "parent (node class_family 2) = Some 0"
    by (simp add: class_family_eq model_defs)
  have l: "0 < length (heap (root_X Class))" by (simp add: root_X_eq)
  from t [where q = example_service and a = 0 and st = "root_X Class" and res = "Inr 1"
      and ?st3.0 = class_chain] l climb_X
  have 4: "climb_links (root_X Class) class_chain 0" by blast
  have m3: "materializes (root_X Class) (OpGetChildren None)"
    by (simp add: materializes_def root_X_eq)
  have e3: "exec codeCompare example_service (root_X Class) (OpGetChildren None)
      = Some class_chain"
    by (simp add: getChildren_X)
  have r3: "\<forall>r \<in> set (roots (root_X Class)). r < length (heap (root_X Class))"
    by (simp add: root_X_eq)
  have ne: "class_chain \<noteq> root_X Class"
    by (simp add: class_chain_def root_X_eq)
  from t [where st = "root_X Class" and x = "OpGetChildren None" and lc = codeCompare
      and q = example_service and ?st1.0 = class_chain] m3 e3 r3 ne
  have 5: "\<exists>r \<in> set (roots (root_X Class)). climb_links (root_X Class) class_chain r"
    by blast
  from 1 2 3 4 5 show ?thesis by blast
qed

text \<open>
  The claim as written fails for the class-view root materialization, which assigns
  \<^verbatim>\<open>rootClass.parent = parentItem\<close>: after the top-level \<^verbatim>\<open>getChildren()\<close> in the
  Class view, \<open>X\<close> is still in the root sequence and its parent is the new node.
\<close>

theorem C3_class_view_reparents_root:
  "parent (node (root_X Class) 0) = None \<and>
   exec codeCompare example_service (root_X Class) (OpGetChildren None) = Some class_chain \<and>
   roots class_chain = [0] \<and>
   parent (node class_chain 0) = Some 1"
proof -
  have "parent (node (root_X Class) 0) = None" by (simp add: root_X_eq model_defs)
  moreover have "roots class_chain = [0]" "parent (node class_chain 0) = Some 1"
    by (simp_all add: class_chain_def model_defs)
  ultimately show ?thesis by (simp add: getChildren_X)
qed

section \<open>Change events\<close>

lemma remove_events:
  "\<exists>n. changes (remove st a) = changes st @ replicate n PModel \<and>
       filter (\<lambda>x. x = None) (emitted (remove st a))
         = filter (\<lambda>x. x = None) (emitted st) @ replicate n None"
proof (cases "siblings_of st a")
  case None
  then have "remove st a = st" by (rule remove_unresolved)
  then show ?thesis by (intro exI [of _ 0]) simp
next
  case (Some xs)
  then have "changes (remove st a) = changes st @ [PModel] \<and>
      emitted (remove st a) = emitted st @ [None]"
    by (auto simp: siblings_of_def remove_def fire_change_def modelListener_def
        split: if_splits option.splits)
  then show ?thesis by (intro exI [of _ 1]) simp
qed

lemma getChildren_top_frame:
  assumes "getChildren lc q st None = Some res"
  shows "changes (snd res) = changes st \<and> emitted (snd res) = emitted st \<and>
         view (snd res) = view st \<and> roots (snd res) = roots st"
proof (cases "view st = Class")
  case False
  with assms show ?thesis by (auto simp: getChildren_def)
next
  case True
  show ?thesis
  proof (cases "find (\<lambda>root. kind (item (node st root)) = SymbolKind_Class) (roots st)")
    case None
    with True assms show ?thesis by (auto simp: getChildren_def)
  next
    case (Some r)
    with True assms obtain res1 where c: "getClassViewRoot q st r = Some res1"
      and "snd res = snd res1"
      by (auto simp: getChildren_def split: option.splits sum.splits prod.splits)
    with getClassViewRoot_frame [OF c] show ?thesis by simp
  qed
qed

lemma exec_events:
  assumes "exec lc q st x = Some st1"
  shows "\<exists>n. changes st1 = changes st @ replicate n PModel \<and>
       filter (\<lambda>x. x = None) (emitted st1)
         = filter (\<lambda>x. x = None) (emitted st) @ replicate n None"
proof (cases x)
  case (OpGetTypeChildren a)
  with assms getTypeChildren_frame [of lc q st a] show ?thesis
    by (intro exI [of _ 0]) auto
next
  case (OpRemove a)
  with assms remove_events [of st a] show ?thesis by auto
next
  case (OpGetTreeItem a)
  with assms getTreeItem_frame [of lc q st a] show ?thesis
    by (intro exI [of _ 0]) auto
next
  case (OpGetChildren e)
  show ?thesis
  proof (cases e)
    case (Some a)
    with OpGetChildren assms getChildrenOf_frame [of lc q st a] show ?thesis
      by (intro exI [of _ 0]) (auto simp: getChildren_def)
  next
    case None
    with OpGetChildren assms obtain res where "getChildren lc q st None = Some res"
      and "st1 = snd res" by auto
    with getChildren_top_frame [of lc q st res] show ?thesis
      by (intro exI [of _ 0]) simp
  qed
qed

lemma run_events:
  "run lc q st xs = Some st1 \<Longrightarrow>
   \<exists>n. changes st1 = changes st @ replicate n PModel \<and>
       filter (\<lambda>x. x = None) (emitted st1)
         = filter (\<lambda>x. x = None) (emitted st) @ replicate n None"
proof (induction xs arbitrary: st)
  case Nil
  then show ?case by (intro exI [of _ 0]) simp
next
  case (Cons x xs)
  then obtain st2 where s: "exec lc q st x = Some st2" and r: "run lc q st2 xs = Some st1"
    by (auto split: option.splits)
  from exec_events [OF s] obtain n where n: "changes st2 = changes st @ replicate n PModel"
    "filter (\<lambda>x. x = None) (emitted st2) = filter (\<lambda>x. x = None) (emitted st) @ replicate n None"
    by blast
  from Cons.IH [OF r] obtain m where m: "changes st1 = changes st2 @ replicate m PModel"
    "filter (\<lambda>x. x = None) (emitted st1) = filter (\<lambda>x. x = None) (emitted st2) @ replicate m None"
    by blast
  from n m show ?case
    by (intro exI [of _ "n + m"]) (simp add: replicate_add)
qed


text \<open>
  C10 (change events). After any sequence of operations on a model as constructed,
  every payload fired on the model's change event is the model, for which the
  adapter's listener fires \<^verbatim>\<open>undefined\<close> (a refresh of the whole tree); no payload is
  a node, so the \<^verbatim>\<open>instanceof TypeItem\<close> branch of the listener is never taken; and
  the \<^verbatim>\<open>undefined\<close> payloads of the adapter are exactly the answers of the listener
  (the other payloads of the adapter are nodes, fired by \<^verbatim>\<open>getChildren\<close>).
\<close>

theorem C10_changes_carry_the_model:
  assumes "run lc q (TypesModel v pf its) xs = Some st"
  shows "(\<forall>e \<in> set (changes st). e = PModel \<and> modelListener e = None) \<and>
         (\<forall>n. PNode n \<notin> set (changes st)) \<and>
         filter (\<lambda>x. x = None) (emitted st) = map modelListener (changes st)"
proof -
  from run_events [OF assms] obtain n where
    "changes st = replicate n PModel" "filter (\<lambda>x. x = None) (emitted st) = replicate n None"
    by (auto simp: TypesModel_def)
  then show ?thesis by (auto simp: modelListener_def)
qed

text \<open>
  The session of the example: two removals fire the model twice; the adapter fires
  \<^verbatim>\<open>undefined\<close> twice, and once the childless node \<open>A\<close>.
\<close>

lemma run_session:
  "run codeCompare example_service (TypesModel Subtype False [mk_item ''X'' SymbolKind_Class])
     session = Some after_session"
  by (simp add: session_def after_session_def family_def root_X_def getChildren_def)

lemma after_session_events:
  "changes after_session = [PModel, PModel]" "emitted after_session = [None, Some 1, None]"
  by (simp_all add: after_session_def family_eq getChildrenOf_def model_defs)


theorem C10_changes_carry_the_model_witness:
  "changes after_session = [PModel, PModel] \<and>
   emitted after_session = [None, Some 1, None] \<and>
   PNode 1 \<notin> set (changes after_session) \<and>
   filter (\<lambda>x. x = None) (emitted after_session) = map modelListener (changes after_session)"
  using C10_changes_carry_the_model [OF run_session] after_session_events by simp

section \<open>Sibling order\<close>

lemma toString_nonempty: "toString n \<noteq> []"
  by (subst toString.simps) simp

lemma digit_inj:
  assumes "a < 10" "b < 10" "char_of (48 + a :: nat) = (char_of (48 + b) :: char)"
  shows "a = b"
proof -
  from assms(3) have "of_char (char_of (48 + a) :: char) = (of_char (char_of (48 + b) :: char) :: nat)"
    by simp
  with assms(1,2) show ?thesis by (simp add: of_char_of)
qed

lemma toString_inj: "toString m = toString n \<Longrightarrow> m = n"
proof (induction m arbitrary: n rule: toString.induct)
  case (1 m)
  show ?case
  proof (cases "m < 10")
    case True
    then have m: "toString m = [char_of (48 + m)]" by (subst toString.simps) simp
    show ?thesis
    proof (cases "n < 10")
      case n: True
      then have "toString n = [char_of (48 + n)]" by (subst toString.simps) simp
      with m 1(2) True n show ?thesis using digit_inj by simp
    next
      case False
      then have "toString n = toString (n div 10) @ [char_of (48 + n mod 10)]"
        by (subst toString.simps) simp
      with m 1(2) toString_nonempty [of "n div 10"] show ?thesis by simp
    qed
  next
    case False
    then have m: "toString m = toString (m div 10) @ [char_of (48 + m mod 10)]"
      by (subst toString.simps) simp
    show ?thesis
    proof (cases "n < 10")
      case True
      then have "toString n = [char_of (48 + n)]" by (subst toString.simps) simp
      with m 1(2) toString_nonempty [of "m div 10"] show ?thesis by simp
    next
      case n: False
      then have "toString n = toString (n div 10) @ [char_of (48 + n mod 10)]"
        by (subst toString.simps) simp
      with m 1(2) have eq: "toString (m div 10) = toString (n div 10)"
        and d: "char_of (48 + m mod 10) = (char_of (48 + n mod 10) :: char)" by simp_all
      from 1(1) [OF False eq] have "m div 10 = n div 10" .
      moreover from d have "m mod 10 = n mod 10" by (intro digit_inj) simp_all
      ultimately show ?thesis by (metis div_mult_mod_eq)
    qed
  qed
qed

lemma consistent_flip: "consistent lc \<Longrightarrow> (lc a b < 0) = (0 < lc b a)"
  unfolding consistent_def by blast

lemma consistent_refl:
  assumes "consistent lc"
  shows "lc a a = 0"
  using consistent_flip [OF assms, of a a] by arith

lemma consistent_total:
  assumes "consistent lc" "\<not> lc a b \<le> 0"
  shows "lc b a \<le> 0"
  using consistent_flip [OF assms(1), of b a] assms(2) by arith

lemma consistent_trans: "consistent lc \<Longrightarrow> lc a b \<le> 0 \<Longrightarrow> lc b c \<le> 0 \<Longrightarrow> lc a c \<le> 0"
  unfolding consistent_def by blast

lemma consistent_sym0:
  assumes "consistent lc" "lc a b = 0"
  shows "lc b a = 0"
  using consistent_flip [OF assms(1), of b a] consistent_flip [OF assms(1), of a b] assms(2)
  by arith

lemma digits_differ:
  assumes "consistent lc" "digits_lexicographic lc" "toString m \<noteq> toString n"
  shows "(lc (toString n) (toString m) \<le> 0) = (toString n < toString m)"
proof
  assume "toString n < toString m"
  with assms(2) show "lc (toString n) (toString m) \<le> 0"
    unfolding digits_lexicographic_def by (simp add: less_imp_le)
next
  assume le: "lc (toString n) (toString m) \<le> 0"
  show "toString n < toString m"
  proof (rule ccontr)
    assume "\<not> toString n < toString m"
    with assms(3) have "toString m < toString n" by auto
    with assms(2) have "lc (toString m) (toString n) < 0"
      unfolding digits_lexicographic_def by simp
    with assms(1) have "0 < lc (toString n) (toString m)"
      unfolding consistent_def by blast
    with le show False by simp
  qed
qed

lemma compareTypes_le:
  assumes "consistent lc" "digits_lexicographic lc"
  shows "(compareTypes lc a b \<le> 0) =
     (toString (kind b) < toString (kind a) \<or>
      toString (kind a) = toString (kind b) \<and> lc (name a) (name b) \<le> 0)"
  using digits_differ [OF assms, of "kind a" "kind b"]
  by (auto simp: compareTypes_def)

lemma compareTypes_total:
  assumes "consistent lc" "digits_lexicographic lc"
  shows "\<not> compareTypes lc a b \<le> 0 \<Longrightarrow> compareTypes lc b a \<le> 0"
  unfolding compareTypes_le [OF assms]
  using consistent_total [OF assms(1), of "name a" "name b"] by auto

lemma compareTypes_trans:
  assumes "consistent lc" "digits_lexicographic lc"
  shows "compareTypes lc a b \<le> 0 \<Longrightarrow> compareTypes lc b c \<le> 0 \<Longrightarrow> compareTypes lc a c \<le> 0"
  unfolding compareTypes_le [OF assms]
  using consistent_trans [OF assms(1), of "name a" "name b" "name c"] by auto

lemma set_insort_by: "set (insort_by c x ys) = insert x (set ys)"
  by (induction ys) auto

lemma mset_insort_by: "mset (insort_by c x ys) = add_mset x (mset ys)"
  by (induction ys) auto

lemma mset_js_sort: "mset (js_sort c xs) = mset xs"
  by (induction xs) (simp_all add: js_sort_def mset_insort_by)

lemma sorted_insort_by:
  assumes tot: "\<And>a b. \<not> c a b \<le> 0 \<Longrightarrow> c b a \<le> 0"
    and tr: "\<And>a b d. c a b \<le> 0 \<Longrightarrow> c b d \<le> 0 \<Longrightarrow> c a d \<le> 0"
  shows "sorted_wrt (\<lambda>a b. c a b \<le> 0) ys \<Longrightarrow> sorted_wrt (\<lambda>a b. c a b \<le> 0) (insort_by c x ys)"
proof (induction ys)
  case Nil
  then show ?case by simp
next
  case (Cons y ys)
  show ?case
  proof (cases "c x y \<le> 0")
    case True
    with Cons.prems tr show ?thesis by auto
  next
    case False
    with tot have "c y x \<le> 0" by blast
    with False Cons show ?thesis by (auto simp: set_insort_by)
  qed
qed

lemma sorted_js_sort:
  assumes tot: "\<And>a b. \<not> c a b \<le> 0 \<Longrightarrow> c b a \<le> 0"
    and tr: "\<And>a b d. c a b \<le> 0 \<Longrightarrow> c b d \<le> 0 \<Longrightarrow> c a d \<le> 0"
  shows "sorted_wrt (\<lambda>a b. c a b \<le> 0) (js_sort c xs)"
proof (induction xs)
  case Nil
  then show ?case by (simp add: js_sort_def)
next
  case (Cons x xs)
  from sorted_insort_by [of c "js_sort c xs" x, OF tot tr Cons]
  show ?case by (simp add: js_sort_def)
qed

lemma filter_insort_by:
  assumes "\<forall>y \<in> set ys. P x \<and> P y \<longrightarrow> c x y \<le> 0"
  shows "filter P (insort_by c x ys) = (if P x then x # filter P ys else filter P ys)"
  using assms by (induction ys) auto

lemma stable_js_sort:
  assumes "\<And>x y. P x \<Longrightarrow> P y \<Longrightarrow> c x y \<le> 0"
  shows "filter P (js_sort c xs) = filter P xs"
proof (induction xs)
  case Nil
  then show ?case by (simp add: js_sort_def)
next
  case (Cons x xs)
  have "filter P (insort_by c x (js_sort c xs))
      = (if P x then x # filter P (js_sort c xs) else filter P (js_sort c xs))"
    by (rule filter_insort_by) (simp add: assms)
  with Cons show ?case by (simp add: js_sort_def)
qed

lemma length_js_sort: "length (js_sort c xs) = length xs"
  using mset_js_sort [of c xs] by (metis size_mset)

lemma getTypeChildren_items:
  assumes "children (node st a) = None" "a < length (heap st)"
    "q (fetches st) (if view st = Supertype then Supertypes else Subtypes) (item (node st a))
       = Items xs"
  shows "\<exists>cs st1. getTypeChildren lc q st a = (Inr cs, st1) \<and>
           map (\<lambda>c. item (node st1 c)) cs = sort_types lc xs"
proof -
  let ?ys = "sort_types lc xs"
  let ?n = "length (heap st)"
  let ?h = "heap st @ map (\<lambda>it. new_TypeItem it (Some a)) ?ys"
  let ?cs = "[?n..<?n + length ?ys]"
  let ?st1 = "st\<lparr>fetches := fetches st @ [(if view st = Supertype then Supertypes else Subtypes,
      item (node st a))], heap := ?h\<rparr>"
  let ?st2 = "set_node ?st1 a ((node ?st1 a)\<lparr>children := Some ?cs\<rparr>)"
  from assms have "getTypeChildren lc q st a = (Inr ?cs, ?st2)"
    by (simp add: getTypeChildren_def resolveTypes_def executeCommand_def Let_def)
  moreover have "map (\<lambda>c. item (node ?st2 c)) ?cs = ?ys"
  proof (rule nth_equalityI)
    show "length (map (\<lambda>c. item (node ?st2 c)) ?cs) = length ?ys" by simp
  next
    fix i
    assume "i < length (map (\<lambda>c. item (node ?st2 c)) ?cs)"
    then have i: "i < length ?ys" by simp
    with assms(2) have "node ?st2 (?n + i) = new_TypeItem (?ys ! i) (Some a)"
      by (simp add: node_def set_node_def nth_append)
    with i show "map (\<lambda>c. item (node ?st2 c)) ?cs ! i = ?ys ! i"
      by (simp add: new_TypeItem_def)
  qed
  ultimately show ?thesis by blast
qed

lemma kind_order:
  assumes c: "consistent lc" and d: "digits_lexicographic lc"
    and i: "i < length xs" and j: "j < length xs"
    and k: "kind (sort_types lc xs ! i) \<noteq> kind (sort_types lc xs ! j)"
  shows "(i < j) = (toString (kind (sort_types lc xs ! j)) < toString (kind (sort_types lc xs ! i)))"
proof -
  let ?ys = "sort_types lc xs"
  have s: "sorted_wrt (\<lambda>a b. compareTypes lc a b \<le> 0) ?ys"
    unfolding sort_types_def
    by (rule sorted_js_sort) (blast intro: compareTypes_total [OF c d] compareTypes_trans [OF c d])+
  have len: "length ?ys = length xs" by (simp add: sort_types_def length_js_sort)
  from k have ne: "toString (kind (?ys ! i)) \<noteq> toString (kind (?ys ! j))"
    using toString_inj by blast
  have before: "toString (kind (?ys ! q)) < toString (kind (?ys ! p))"
    if "p < q" "q < length xs" "toString (kind (?ys ! p)) \<noteq> toString (kind (?ys ! q))" for p q
  proof -
    from s that(1,2) len have "compareTypes lc (?ys ! p) (?ys ! q) \<le> 0"
      by (simp add: sorted_wrt_iff_nth_less)
    with that(3) show ?thesis by (simp add: compareTypes_le [OF c d])
  qed
  show ?thesis
  proof
    assume "i < j"
    from before [OF this j ne]
    show "toString (kind (?ys ! j)) < toString (kind (?ys ! i))" .
  next
    assume gt: "toString (kind (?ys ! j)) < toString (kind (?ys ! i))"
    show "i < j"
    proof (rule ccontr)
      assume "\<not> i < j"
      with k have "j < i" by (cases "i = j") auto
      from before [OF this i] ne have "toString (kind (?ys ! i)) < toString (kind (?ys ! j))"
        by simp
      with gt show False by simp
    qed
  qed
qed

lemma name_order:
  assumes c: "consistent lc" and d: "digits_lexicographic lc"
    and "i < j" "j < length xs" "kind (sort_types lc xs ! i) = kind (sort_types lc xs ! j)"
  shows "lc (name (sort_types lc xs ! i)) (name (sort_types lc xs ! j)) \<le> 0"
proof -
  let ?ys = "sort_types lc xs"
  have s: "sorted_wrt (\<lambda>a b. compareTypes lc a b \<le> 0) ?ys"
    unfolding sort_types_def
    by (rule sorted_js_sort) (blast intro: compareTypes_total [OF c d] compareTypes_trans [OF c d])+
  have "length ?ys = length xs" by (simp add: sort_types_def length_js_sort)
  with s assms(3,4) have "compareTypes lc (?ys ! i) (?ys ! j) \<le> 0"
    by (simp add: sorted_wrt_iff_nth_less)
  with assms(5) show ?thesis by (simp add: compareTypes_le [OF c d])
qed

lemma equal_keys_stable:
  assumes c: "consistent lc"
  shows "filter (\<lambda>x. kind x = k \<and> lc (name x) n = 0) (sort_types lc xs)
       = filter (\<lambda>x. kind x = k \<and> lc (name x) n = 0) xs"
  unfolding sort_types_def
proof (rule stable_js_sort)
  fix x y :: TypeHierarchyItem
  assume x: "kind x = k \<and> lc (name x) n = 0" and y: "kind y = k \<and> lc (name y) n = 0"
  from y have "lc n (name y) = 0" using consistent_sym0 [OF c] by blast
  with x have "lc (name x) (name y) \<le> 0"
    using consistent_trans [OF c, of "name x" n "name y"] by simp
  with x y show "compareTypes lc x y \<le> 0" by (simp add: compareTypes_def)
qed

text \<open>
  C6 (sibling order). For a consistent collation that compares numerals character by
  character, the items \<open>sort_types lc xs\<close> of one child resolution are the fetched
  items \<open>xs\<close> rearranged, and for any two positions \<open>i\<close>, \<open>j\<close> in them:
  \<^item> if the kinds differ, the item at \<open>i\<close> comes before the item at \<open>j\<close> iff the string
    form of its kind is lexicographically greater;
  \<^item> if the kinds are equal and \<open>i\<close> comes first, the name at \<open>i\<close> is not greater than
    the name at \<open>j\<close> in the collation;
  \<^item> items with equal keys (the same kind, names that compare equal) keep the order
    they were fetched in.
  The nodes that \<^verbatim>\<open>getTypeChildren\<close> builds for an unresolved node carry these items in
  this order.
\<close>

theorem C6_sibling_order:
  assumes "consistent lc" and "digits_lexicographic lc"
  shows
    "mset (sort_types lc xs) = mset xs \<and>
     (\<forall>i j. i < length xs \<and> j < length xs \<and>
            kind (sort_types lc xs ! i) \<noteq> kind (sort_types lc xs ! j) \<longrightarrow>
            (i < j) = (toString (kind (sort_types lc xs ! j))
                        < toString (kind (sort_types lc xs ! i)))) \<and>
     (\<forall>i j. i < j \<and> j < length xs \<and>
            kind (sort_types lc xs ! i) = kind (sort_types lc xs ! j) \<longrightarrow>
            lc (name (sort_types lc xs ! i)) (name (sort_types lc xs ! j)) \<le> 0) \<and>
     (\<forall>k n. filter (\<lambda>x. kind x = k \<and> lc (name x) n = 0) (sort_types lc xs)
              = filter (\<lambda>x. kind x = k \<and> lc (name x) n = 0) xs) \<and>
     (children (node st a) = None \<and> a < length (heap st) \<and>
      q (fetches st) (if view st = Supertype then Supertypes else Subtypes) (item (node st a))
        = Items xs \<longrightarrow>
      (\<exists>cs st1. getTypeChildren lc q st a = (Inr cs, st1) \<and>
         map (\<lambda>c. item (node st1 c)) cs = sort_types lc xs))"
proof (intro conjI allI impI)
  show "mset (sort_types lc xs) = mset xs" by (simp add: sort_types_def mset_js_sort)
next
  fix i j
  assume "i < length xs \<and> j < length xs \<and>
    kind (sort_types lc xs ! i) \<noteq> kind (sort_types lc xs ! j)"
  then show "(i < j) = (toString (kind (sort_types lc xs ! j))
                        < toString (kind (sort_types lc xs ! i)))"
    using kind_order [OF assms, of i xs j] by blast
next
  fix i j
  assume "i < j \<and> j < length xs \<and> kind (sort_types lc xs ! i) = kind (sort_types lc xs ! j)"
  then show "lc (name (sort_types lc xs ! i)) (name (sort_types lc xs ! j)) \<le> 0"
    using name_order [OF assms, of i j xs] by blast
next
  fix k n
  show "filter (\<lambda>x. kind x = k \<and> lc (name x) n = 0) (sort_types lc xs)
      = filter (\<lambda>x. kind x = k \<and> lc (name x) n = 0) xs"
    by (rule equal_keys_stable [OF assms(1)])
next
  assume "children (node st a) = None \<and> a < length (heap st) \<and>
      q (fetches st) (if view st = Supertype then Supertypes else Subtypes) (item (node st a))
        = Items xs"
  then show "\<exists>cs st1. getTypeChildren lc q st a = (Inr cs, st1) \<and>
         map (\<lambda>c. item (node st1 c)) cs = sort_types lc xs"
    using getTypeChildren_items [of st a q xs lc] by simp
qed


text \<open>
  The comparison by character codes is such a collation. It sorts the subtypes
  \<open>[B, J, A]\<close> of \<open>X\<close> into \<open>[A, B, J]\<close>: the classes (kind \<open>4\<close>) before the
  interface (kind \<open>10\<close>), \<open>A\<close> before \<open>B\<close>.
\<close>

lemma codeCompare_consistent: "consistent codeCompare"
  unfolding consistent_def codeCompare_def by (auto split: if_splits)

lemma codeCompare_digits: "digits_lexicographic codeCompare"
  unfolding digits_lexicographic_def codeCompare_def by auto

lemma example_types_sorted:
  "sort_types codeCompare example_types =
     [mk_item ''A'' SymbolKind_Class, mk_item ''B'' SymbolKind_Class,
      mk_item ''J'' SymbolKind_Interface]"
  by (simp add: sort_types_def example_types_def model_defs)


theorem C6_sibling_order_witness:
  "sort_types codeCompare example_types =
     [mk_item ''A'' SymbolKind_Class, mk_item ''B'' SymbolKind_Class,
      mk_item ''J'' SymbolKind_Interface] \<and>
   mset (sort_types codeCompare example_types) = mset example_types \<and>
   toString SymbolKind_Interface < toString SymbolKind_Class \<and>
   codeCompare ''A'' ''B'' \<le> 0"
proof -
  note t = C6_sibling_order [OF codeCompare_consistent codeCompare_digits, of example_types]
  have l: "length example_types = 3" by (simp add: example_types_def)
  have k: "kind (sort_types codeCompare example_types ! 1)
             \<noteq> kind (sort_types codeCompare example_types ! 2)"
    "kind (sort_types codeCompare example_types ! 0)
             = kind (sort_types codeCompare example_types ! 1)"
    by (simp_all add: example_types_sorted mk_item_def SymbolKind_Class_def
        SymbolKind_Interface_def)
  from t have ord: "i < length example_types \<Longrightarrow> j < length example_types \<Longrightarrow>
      kind (sort_types codeCompare example_types ! i)
        \<noteq> kind (sort_types codeCompare example_types ! j) \<Longrightarrow>
      (i < j) = (toString (kind (sort_types codeCompare example_types ! j))
                  < toString (kind (sort_types codeCompare example_types ! i)))" for i j
    by blast
  from t have nm: "i < j \<Longrightarrow> j < length example_types \<Longrightarrow>
      kind (sort_types codeCompare example_types ! i)
        = kind (sort_types codeCompare example_types ! j) \<Longrightarrow>
      codeCompare (name (sort_types codeCompare example_types ! i))
        (name (sort_types codeCompare example_types ! j)) \<le> 0" for i j
    by blast
  from ord [of 1 2] k(1) have a: "toString SymbolKind_Interface < toString SymbolKind_Class"
    by (simp add: l example_types_sorted mk_item_def)
  from nm [of 0 1] k(2) have b: "codeCompare ''A'' ''B'' \<le> 0"
    by (simp add: l example_types_sorted mk_item_def)
  from t have "mset (sort_types codeCompare example_types) = mset example_types" by blast
  with a b example_types_sorted show ?thesis by blast
qed

end
